theory Spec2Isabelle
  imports Complex_Main
begin

section \<open>Strings and values of the source language\<close>

text \<open>
  A \<^typ>\<open>char\<close> stands for one UTF-16 code unit below 256 (the Latin-1 range), so a
  \<^typ>\<open>string\<close> is a JavaScript string over that range. Confidences are JavaScript
  numbers; they are modelled as rationals. Every quotient the heuristic scorer forms has
  a denominator between 6 and 18 that is neither 10 nor 20, so it is never within
  rounding distance of the thresholds 0.3 and 0.8 and the comparisons come out as they
  do in binary floating point.
\<close>

definition toLowerCase_char :: "char \<Rightarrow> char" where
  "toLowerCase_char c =
     (let n = (of_char c :: nat)
      in if (65 \<le> n \<and> n \<le> 90) \<or> (192 \<le> n \<and> n \<le> 222 \<and> n \<noteq> 215)
         then char_of (n + 32) else c)"

definition toLowerCase :: "string \<Rightarrow> string" where
  "toLowerCase s = map toLowerCase_char s"

fun startsWith :: "string \<Rightarrow> string \<Rightarrow> bool" where
  "startsWith s [] = True"
| "startsWith [] (p # ps) = False"
| "startsWith (c # cs) (p # ps) = (c = p \<and> startsWith cs ps)"

text \<open>\<open>s.includes(t)\<close>: \<open>t\<close> occurs in \<open>s\<close> as a contiguous substring.\<close>

fun str_includes :: "string \<Rightarrow> string \<Rightarrow> bool" where
  "str_includes [] t = (t = [])"
| "str_includes (c # cs) t = (startsWith (c # cs) t \<or> str_includes cs t)"

text \<open>
  A function of the source that returns either a string or an object with a purpose and
  a confidence returns a \<open>jsval\<close>; \<open>!==\<close> between two such values is \<open>\<noteq>\<close>, and a
  string is never equal to an object.
\<close>

datatype jsval = Str string | Obj (obj_purpose: string) (obj_confidence: rat)

section \<open>Field descriptors\<close>

text \<open>
  The field objects built by the content script, with the properties the mapper and the
  inference client read or write. A property that may be \<open>undefined\<close> is an option.
  \<open>element\<close> is the handle of the live DOM element.
\<close>

record form_field =
  element :: "nat option"
  field_type :: string
  name :: string
  field_id :: string
  placeholder :: string
  label :: string
  required :: bool
  purpose :: "string option"
  confidence :: "rat option"
  mappingMethod :: "string option"
  needsLLMAnalysis :: bool
  needsManualReview :: bool
  llmReasoning :: "string option"

section \<open>The heuristic scorer\<close>

record patterns =
  names :: "string list"
  ids :: "string list"
  placeholders :: "string list"
  labels :: "string list"
  types :: "string list"

definition HEURISTIC_PATTERNS :: "(string \<times> patterns) list" where
  "HEURISTIC_PATTERNS =
   [(''firstName'', \<lparr>
       names = [''firstname'', ''first_name'', ''first-name'', ''fname'', ''forename'', ''givenname''],
       ids = [''firstname'', ''first_name'', ''first-name'', ''fname''],
       placeholders = [''first name'', ''given name'', ''forename''],
       labels = [''first name'', ''given name'', ''forename'', ''pr'' @ [char_of (233::nat)] @ ''nom''],
       types = [''text'']\<rparr>),
    (''lastName'', \<lparr>
       names = [''lastname'', ''last_name'', ''last-name'', ''lname'', ''surname'', ''familyname''],
       ids = [''lastname'', ''last_name'', ''last-name'', ''lname''],
       placeholders = [''last name'', ''surname'', ''family name''],
       labels = [''last name'', ''surname'', ''family name'', ''nom de famille''],
       types = [''text'']\<rparr>),
    (''fullName'', \<lparr>
       names = [''name'', ''full_name'', ''fullname'', ''full-name'', ''completename''],
       ids = [''name'', ''full_name'', ''fullname''],
       placeholders = [''full name'', ''your name'', ''name''],
       labels = [''full name'', ''name'', ''your name'', ''nom complet''],
       types = [''text'']\<rparr>),
    (''email'', \<lparr>
       names = [''email'', ''email_address'', ''email-address'', ''emailaddress'', ''mail''],
       ids = [''email'', ''email_address'', ''email-address''],
       placeholders = [''email'', ''email address'', ''your email'', ''e-mail''],
       labels = [''email'', ''email address'', ''e-mail address''],
       types = [''email'', ''text'']\<rparr>),
    (''phone'', \<lparr>
       names = [''phone'', ''phone_number'', ''phone-number'', ''phonenumber'', ''telephone'', ''mobile'', ''cell''],
       ids = [''phone'', ''phone_number'', ''telephone''],
       placeholders = [''phone'', ''phone number'', ''telephone'', ''mobile'', ''cell phone''],
       labels = [''phone'', ''phone number'', ''telephone'', ''mobile number''],
       types = [''tel'', ''text'']\<rparr>),
    (''address'', \<lparr>
       names = [''address'', ''street_address'', ''street-address'', ''streetaddress'', ''addr''],
       ids = [''address'', ''street_address'', ''street-address''],
       placeholders = [''address'', ''street address'', ''your address''],
       labels = [''address'', ''street address'', ''home address''],
       types = [''text'']\<rparr>),
    (''city'', \<lparr>
       names = [''city'', ''town'', ''locality''],
       ids = [''city'', ''town''],
       placeholders = [''city'', ''town''],
       labels = [''city'', ''town'', ''locality''],
       types = [''text'']\<rparr>),
    (''state'', \<lparr>
       names = [''state'', ''province'', ''region'', ''state_province''],
       ids = [''state'', ''province'', ''region''],
       placeholders = [''state'', ''province'', ''region''],
       labels = [''state'', ''province'', ''state/province'', ''region''],
       types = [''text'', ''select-one'']\<rparr>),
    (''zipCode'', \<lparr>
       names = [''zip'', ''zipcode'', ''zip_code'', ''postal'', ''postalcode'', ''postal_code''],
       ids = [''zip'', ''zipcode'', ''postal''],
       placeholders = [''zip'', ''zip code'', ''postal code''],
       labels = [''zip code'', ''postal code'', ''zip''],
       types = [''text'']\<rparr>),
    (''country'', \<lparr>
       names = [''country'', ''nation''],
       ids = [''country''],
       placeholders = [''country''],
       labels = [''country'', ''nation''],
       types = [''select-one'', ''text'']\<rparr>),
    (''currentTitle'', \<lparr>
       names = [''title'', ''job_title'', ''position'', ''current_title'', ''role''],
       ids = [''title'', ''job_title'', ''position''],
       placeholders = [''job title'', ''current title'', ''position'', ''role''],
       labels = [''job title'', ''current title'', ''position'', ''current position''],
       types = [''text'']\<rparr>),
    (''currentCompany'', \<lparr>
       names = [''company'', ''employer'', ''current_company'', ''organization''],
       ids = [''company'', ''employer''],
       placeholders = [''company'', ''employer'', ''current company''],
       labels = [''company'', ''employer'', ''current employer'', ''organization''],
       types = [''text'']\<rparr>),
    (''yearsExperience'', \<lparr>
       names = [''experience'', ''years_experience'', ''experience_years''],
       ids = [''experience'', ''years_experience''],
       placeholders = [''years of experience'', ''experience''],
       labels = [''years of experience'', ''experience'', ''work experience''],
       types = [''number'', ''text'', ''select-one'']\<rparr>),
    (''desiredSalary'', \<lparr>
       names = [''salary'', ''desired_salary'', ''expected_salary'', ''compensation''],
       ids = [''salary'', ''desired_salary''],
       placeholders = [''desired salary'', ''expected salary'', ''salary''],
       labels = [''desired salary'', ''expected salary'', ''salary expectations''],
       types = [''number'', ''text'']\<rparr>),
    (''availableStartDate'', \<lparr>
       names = [''start_date'', ''available_date'', ''availability''],
       ids = [''start_date'', ''available_date''],
       placeholders = [''start date'', ''available date'', ''when can you start''],
       labels = [''start date'', ''availability'', ''when can you start''],
       types = [''date'', ''text'']\<rparr>),
    (''resumeUpload'', \<lparr>
       names = [''resume'', ''cv'', ''curriculum''],
       ids = [''resume'', ''cv''],
       placeholders = [],
       labels = [''resume'', ''cv'', ''curriculum vitae''],
       types = [''file'']\<rparr>),
    (''coverLetterUpload'', \<lparr>
       names = [''cover_letter'', ''coverletter'', ''cover''],
       ids = [''cover_letter'', ''coverletter''],
       placeholders = [],
       labels = [''cover letter'', ''covering letter''],
       types = [''file'']\<rparr>)]"

text \<open>
  The body of the loop of \<open>mapFieldByHeuristics\<close> up to the computation of
  \<open>confidence\<close>: the matched predicates over the number of predicates of the purpose
  (the \<open>ids\<close> group is not counted by the source).
\<close>

definition heuristic_maxScore :: "patterns \<Rightarrow> nat" where
  "heuristic_maxScore ps =
     length (names ps) + length (placeholders ps) + length (labels ps) + length (types ps)"

definition heuristic_score :: "string \<Rightarrow> string \<Rightarrow> patterns \<Rightarrow> nat" where
  "heuristic_score fieldText ftype ps =
     length (filter (\<lambda>n. str_includes fieldText (toLowerCase n)) (names ps))
     + length (filter (\<lambda>p. str_includes fieldText (toLowerCase p)) (placeholders ps))
     + length (filter (\<lambda>l. str_includes fieldText (toLowerCase l)) (labels ps))
     + (if List.member (types ps) ftype then 1 else 0)"

definition heuristic_confidence :: "string \<Rightarrow> string \<Rightarrow> patterns \<Rightarrow> rat" where
  "heuristic_confidence fieldText ftype ps =
     (if heuristic_maxScore ps > 0
      then of_nat (heuristic_score fieldText ftype ps) / of_nat (heuristic_maxScore ps)
      else 0)"

fun heuristics_loop :: "string \<Rightarrow> string \<Rightarrow> (string \<times> patterns) list \<Rightarrow> jsval" where
  "heuristics_loop fieldText ftype [] = Obj ''unknown'' 0"
| "heuristics_loop fieldText ftype ((p, ps) # rest) =
     (let c = heuristic_confidence fieldText ftype ps
      in if c > 3 / 10 then Obj p (min c (8 / 10))
         else heuristics_loop fieldText ftype rest)"

definition heuristic_fieldText :: "'a form_field_scheme \<Rightarrow> string" where
  "heuristic_fieldText field =
     toLowerCase (name field @ '' '' @ field_id field @ '' '' @ placeholder field @ '' '' @ label field)"

definition mapFieldByHeuristics :: "'a form_field_scheme \<Rightarrow> jsval" where
  "mapFieldByHeuristics field =
     heuristics_loop (heuristic_fieldText field) (field_type field) HEURISTIC_PATTERNS"


section \<open>Platform rules\<close>

definition ATS_FIELD_RULES :: "(string \<times> (string \<times> string list) list) list" where
  \<open>ATS_FIELD_RULES =
   [(''workday'',
     [(''firstName'', [''[data-automation-id*="firstName"]'', ''[data-automation-id*="first_name"]'',
                       ''input[name*="firstName"]'', ''input[name*="first_name"]'']),
      (''lastName'', [''[data-automation-id*="lastName"]'', ''[data-automation-id*="last_name"]'',
                      ''input[name*="lastName"]'', ''input[name*="last_name"]'']),
      (''email'', [''[data-automation-id*="email"]'', ''input[name*="email"]'', ''input[type="email"]'']),
      (''phone'', [''[data-automation-id*="phone"]'', ''input[name*="phone"]'', ''input[type="tel"]'']),
      (''address'', [''[data-automation-id*="address"]'', ''input[name*="address"]'']),
      (''city'', [''[data-automation-id*="city"]'', ''input[name*="city"]'']),
      (''state'', [''[data-automation-id*="state"]'', ''[data-automation-id*="province"]'',
                   ''select[name*="state"]'', ''select[name*="province"]'']),
      (''zipCode'', [''[data-automation-id*="zip"]'', ''[data-automation-id*="postal"]'',
                     ''input[name*="zip"]'', ''input[name*="postal"]'']),
      (''country'', [''[data-automation-id*="country"]'', ''select[name*="country"]''])]),
    (''greenhouse'',
     [(''firstName'', [''input[name="job_application[first_name]"]'', ''input[name*="first_name"]'',
                       ''#first_name'']),
      (''lastName'', [''input[name="job_application[last_name]"]'', ''input[name*="last_name"]'',
                      ''#last_name'']),
      (''email'', [''input[name="job_application[email]"]'', ''input[name*="email"]'',
                   ''input[type="email"]'']),
      (''phone'', [''input[name="job_application[phone]"]'', ''input[name*="phone"]'',
                   ''input[type="tel"]'']),
      (''resumeUpload'', [''input[name="job_application[resume]"]'', ''input[type="file"][name*="resume"]'']),
      (''coverLetterUpload'', [''input[name="job_application[cover_letter]"]'',
                               ''input[type="file"][name*="cover"]''])]),
    (''lever'',
     [(''firstName'', [''input[name="name"]'', ''input[name*="first"]'',
                       ''.application-question input[placeholder*="First"]'']),
      (''lastName'', [''input[name*="last"]'', ''.application-question input[placeholder*="Last"]'']),
      (''email'', [''input[name="email"]'', ''input[type="email"]'']),
      (''phone'', [''input[name="phone"]'', ''input[type="tel"]'']),
      (''resumeUpload'', [''input[name="resume"]'', ''input[type="file"]''])]),
    (''icims'',
     [(''firstName'', [''input[name*="firstName"]'', ''input[id*="firstName"]'']),
      (''lastName'', [''input[name*="lastName"]'', ''input[id*="lastName"]'']),
      (''email'', [''input[name*="email"]'', ''input[type="email"]'']),
      (''phone'', [''input[name*="phone"]'', ''input[type="tel"]''])]),
    (''taleo'',
     [(''firstName'', [''input[name*="firstName"]'', ''input[name*="first_name"]'']),
      (''lastName'', [''input[name*="lastName"]'', ''input[name*="last_name"]'']),
      (''email'', [''input[name*="email"]'']),
      (''phone'', [''input[name*="phone"]''])])]\<close>

text \<open>
  \<open>matchesSelector\<close> asks the live document whether the field's element matches a CSS
  selector (\<open>element.matches\<close>, \<open>document.querySelectorAll\<close>) and, when that throws,
  compares string patterns taken from the selector with \<open>field.name\<close>, \<open>field.id\<close> and
  an attribute of the element. The document is outside the program: its answer is the
  parameter \<open>doc\<close>, a function of the field's element, name and id and of the selector.
  With string-valued \<open>name\<close> and \<open>id\<close> neither path throws.
\<close>

type_synonym document = "nat option \<Rightarrow> string \<Rightarrow> string \<Rightarrow> string \<Rightarrow> bool"

definition matchesSelector :: "document \<Rightarrow> 'a form_field_scheme \<Rightarrow> string \<Rightarrow> bool" where
  "matchesSelector doc field selector = doc (element field) (name field) (field_id field) selector"

fun ats_loop :: "document \<Rightarrow> 'a form_field_scheme \<Rightarrow> (string \<times> string list) list \<Rightarrow> string" where
  "ats_loop doc field [] = ''unknown''"
| "ats_loop doc field ((p, selectors) # rest) =
     (if list_ex (matchesSelector doc field) selectors then p else ats_loop doc field rest)"

definition mapFieldByATS :: "document \<Rightarrow> 'a form_field_scheme \<Rightarrow> string \<Rightarrow> string" where
  "mapFieldByATS doc field atsType =
     (case map_of ATS_FIELD_RULES atsType of
        None \<Rightarrow> ''unknown''
      | Some atsRules \<Rightarrow> ats_loop doc field atsRules)"

section \<open>The pattern matcher\<close>

text \<open>
  The regular expressions of \<open>QUESTION_PATTERNS\<close> are literals joined by \<open>.*\<close>, with the
  flag \<open>i\<close>. \<open>test\<close> searches for a match at any position; \<open>.\<close> matches any character
  but a line terminator; under \<open>i\<close> two characters match when they agree up to case.
\<close>

datatype rx_atom = Lit string | DotStar

definition line_terminator :: "char \<Rightarrow> bool" where
  "line_terminator c = ((of_char c :: nat) = 10 \<or> (of_char c :: nat) = 13)"

fun rx_lit_here :: "string \<Rightarrow> string \<Rightarrow> bool" where
  "rx_lit_here [] s = True"
| "rx_lit_here (p # ps) [] = False"
| "rx_lit_here (p # ps) (c # cs) = (toLowerCase_char p = toLowerCase_char c \<and> rx_lit_here ps cs)"

fun rx_match_here :: "rx_atom list \<Rightarrow> string \<Rightarrow> bool" where
  "rx_match_here [] s = True"
| "rx_match_here (Lit w # r) s = (rx_lit_here w s \<and> rx_match_here r (drop (length w) s))"
| "rx_match_here (DotStar # r) [] = rx_match_here r []"
| "rx_match_here (DotStar # r) (c # cs) =
     (rx_match_here r (c # cs) \<or> (\<not> line_terminator c \<and> rx_match_here (DotStar # r) cs))"

fun rx_test :: "rx_atom list \<Rightarrow> string \<Rightarrow> bool" where
  "rx_test r [] = rx_match_here r []"
| "rx_test r (c # cs) = (rx_match_here r (c # cs) \<or> rx_test r cs)"

definition QUESTION_PATTERNS :: "(string \<times> rx_atom list list) list" where
  "QUESTION_PATTERNS =
   [(''whyInterested'',
     [[Lit ''why'', DotStar, Lit ''interested''],
      [Lit ''why'', DotStar, Lit ''want'', DotStar, Lit ''work''],
      [Lit ''why'', DotStar, Lit ''apply''],
      [Lit ''why'', DotStar, Lit ''company''],
      [Lit ''motivation'', DotStar, Lit ''position'']]),
    (''whyQualified'',
     [[Lit ''why'', DotStar, Lit ''qualified''],
      [Lit ''why'', DotStar, Lit ''right'', DotStar, Lit ''candidate''],
      [Lit ''what'', DotStar, Lit ''makes'', DotStar, Lit ''qualified''],
      [Lit ''relevant'', DotStar, Lit ''experience'']]),
    (''careerGoals'',
     [[Lit ''career'', DotStar, Lit ''goals''],
      [Lit ''professional'', DotStar, Lit ''goals''],
      [Lit ''future'', DotStar, Lit ''plans''],
      [Lit ''where'', DotStar, Lit ''see'', DotStar, Lit ''yourself'']]),
    (''greatestStrength'',
     [[Lit ''greatest'', DotStar, Lit ''strength''],
      [Lit ''biggest'', DotStar, Lit ''strength''],
      [Lit ''key'', DotStar, Lit ''strength''],
      [Lit ''what'', DotStar, Lit ''strength'']]),
    (''greatestWeakness'',
     [[Lit ''greatest'', DotStar, Lit ''weakness''],
      [Lit ''biggest'', DotStar, Lit ''weakness''],
      [Lit ''area'', DotStar, Lit ''improvement''],
      [Lit ''what'', DotStar, Lit ''weakness'']])]"

fun patterns_loop :: "string \<Rightarrow> (string \<times> rx_atom list list) list \<Rightarrow> string" where
  "patterns_loop questionText [] = ''unknown''"
| "patterns_loop questionText ((p, rxs) # rest) =
     (if list_ex (\<lambda>rx. rx_test rx questionText) rxs then p
      else patterns_loop questionText rest)"

definition questionText :: "'a form_field_scheme \<Rightarrow> string" where
  "questionText field = toLowerCase (label field @ '' '' @ placeholder field)"

definition mapFieldByQuestionPatterns :: "'a form_field_scheme \<Rightarrow> string" where
  "mapFieldByQuestionPatterns field = patterns_loop (questionText field) QUESTION_PATTERNS"

section \<open>The orchestrator\<close>

text \<open>
  The callback of \<open>fields.map\<close> in \<open>mapFields\<close>. Besides the mutated field it returns
  the stage functions it called, in order.
\<close>

datatype stage = RuleSet | HeuristicScorer | PatternMatcher

definition mapField :: "document \<Rightarrow> string \<Rightarrow> form_field \<Rightarrow> form_field \<times> stage list" where
  "mapField doc atsType field =
     (let atsMapping = mapFieldByATS doc field atsType
      in if atsMapping \<noteq> ''unknown''
         then (field\<lparr>purpose := Some atsMapping, confidence := Some (9 / 10),
                     mappingMethod := Some ''ats-specific''\<rparr>, [RuleSet])
         else
           let heuristicMapping = mapFieldByHeuristics field
           in if heuristicMapping \<noteq> Str ''unknown''
              then (field\<lparr>purpose := Some (obj_purpose heuristicMapping),
                          confidence := Some (obj_confidence heuristicMapping),
                          mappingMethod := Some ''heuristic''\<rparr>, [RuleSet, HeuristicScorer])
              else
                let questionMapping = mapFieldByQuestionPatterns field
                in if questionMapping \<noteq> ''unknown''
                   then (field\<lparr>purpose := Some questionMapping, confidence := Some (7 / 10),
                               mappingMethod := Some ''question-pattern''\<rparr>,
                         [RuleSet, HeuristicScorer, PatternMatcher])
                   else (field\<lparr>purpose := (case purpose field of
                                               None \<Rightarrow> Some ''unknown''
                                             | Some p \<Rightarrow> if p = [] then Some ''unknown'' else Some p),
                               confidence := Some 0,
                               mappingMethod := Some ''none'',
                               needsLLMAnalysis := True\<rparr>,
                         [RuleSet, HeuristicScorer, PatternMatcher]))"

text \<open>
  \<open>mapFields\<close> works on references: \<open>fields\<close> is a list of addresses into a store of
  field objects, the callback mutates the object at each address in turn and returns the
  same address, and \<open>scheduleLLMAnalysis\<close> marks the objects that still need analysis.
  The result is the returned array, the store, and the stages called for each element.
\<close>

type_synonym store = "nat \<Rightarrow> form_field"

fun map_callback :: "document \<Rightarrow> string \<Rightarrow> nat list \<Rightarrow> store \<Rightarrow> nat list \<times> store \<times> stage list list" where
  "map_callback doc atsType [] h = ([], h, [])"
| "map_callback doc atsType (r # rs) h =
     (let (field', called) = mapField doc atsType (h r);
          (out, h', calls) = map_callback doc atsType rs (h(r := field'))
      in (r # out, h', called # calls))"

definition scheduleLLMAnalysis :: "nat list \<Rightarrow> store \<Rightarrow> store" where
  "scheduleLLMAnalysis flds h = fold (\<lambda>r h'. h'(r := (h' r)\<lparr>needsManualReview := True\<rparr>)) flds h"

definition mapFields :: "document \<Rightarrow> nat list \<Rightarrow> string \<Rightarrow> store \<Rightarrow> nat list \<times> store \<times> stage list list" where
  "mapFields doc flds atsType h =
     (let (mappedFields, h1, calls) = map_callback doc atsType flds h;
          llmFields = filter (\<lambda>r. needsLLMAnalysis (h1 r)) mappedFields;
          h2 = (if length llmFields > 0 then scheduleLLMAnalysis llmFields h1 else h1)
      in (mappedFields, h2, calls))"


section \<open>The rate limiter\<close>

text \<open>
  \<open>RATE_LIMIT\<close> holds two limits that are never written and three counters. Every
  function that reads the clock takes the value of \<open>Date.now()\<close> as \<open>now\<close>.
\<close>

definition requestsPerMinute :: int where
  "requestsPerMinute = 60"

definition requestsPerDay :: int where
  "requestsPerDay = 1500"

record rate_limit =
  lastRequestTime :: int
  dailyUsage :: int
  dailyResetTime :: int

definition RATE_LIMIT_initial :: rate_limit where
  "RATE_LIMIT_initial = \<lparr>lastRequestTime = 0, dailyUsage = 0, dailyResetTime = 0\<rparr>"

definition canMakeRequest :: "int \<Rightarrow> rate_limit \<Rightarrow> rate_limit \<times> bool" where
  "canMakeRequest now rl =
     (let rl1 = (if now - dailyResetTime rl > 24 * 60 * 60 * 1000
                 then rl\<lparr>dailyUsage := 0, dailyResetTime := now\<rparr> else rl)
      in if dailyUsage rl1 \<ge> requestsPerDay then (rl1, False)
         else
           let timeSinceLastRequest = now - lastRequestTime rl1;
               minInterval = (60 * 1000) / (of_int requestsPerMinute :: rat)
           in (rl1, of_int timeSinceLastRequest \<ge> minInterval))"

definition updateRateLimit :: "int \<Rightarrow> rate_limit \<Rightarrow> rate_limit" where
  "updateRateLimit now rl = rl\<lparr>lastRequestTime := now, dailyUsage := dailyUsage rl + 1\<rparr>"

text \<open>
  The two functions are called at different times: \<open>canMakeRequest\<close> when a call of
  \<open>analyzeFields\<close> starts, \<open>updateRateLimit\<close> when its remote request has succeeded,
  and other calls may check or commit in between. A history of the rate limiter is a
  sequence of such events, each with the value of the clock it reads.
\<close>

datatype rl_event = Check int | Commit int

fun rl_step :: "rl_event \<Rightarrow> rate_limit \<Rightarrow> rate_limit" where
  "rl_step (Check now) rl = fst (canMakeRequest now rl)"
| "rl_step (Commit now) rl = updateRateLimit now rl"

definition rl_run :: "rl_event list \<Rightarrow> rate_limit \<Rightarrow> rate_limit" where
  "rl_run es rl = fold rl_step es rl"

section \<open>The response cache\<close>

text \<open>
  A \<open>Map\<close> keeps its entries in insertion order; \<open>set\<close> on a key that is present replaces
  the value where it stands.
\<close>

definition CACHE_maxSize :: nat where
  "CACHE_maxSize = 100"

definition CACHE_ttl :: int where
  "CACHE_ttl = 24 * 60 * 60 * 1000"

record 'a cache_entry =
  data :: 'a
  timestamp :: int

type_synonym 'a cache = "(string \<times> 'a cache_entry) list"

definition cache_get :: "'a cache \<Rightarrow> string \<Rightarrow> 'a cache_entry option" where
  "cache_get cache key = map_of cache key"

fun cache_set :: "'a cache \<Rightarrow> string \<Rightarrow> 'a cache_entry \<Rightarrow> 'a cache" where
  "cache_set [] key v = [(key, v)]"
| "cache_set ((k, e) # rest) key v =
     (if k = key then (key, v) # rest else (k, e) # cache_set rest key v)"

definition cache_delete :: "'a cache \<Rightarrow> string \<Rightarrow> 'a cache" where
  "cache_delete cache key = filter (\<lambda>ke. fst ke \<noteq> key) cache"

definition isCacheExpired :: "int \<Rightarrow> 'a cache_entry \<Rightarrow> bool" where
  "isCacheExpired now cachedResult = (now - timestamp cachedResult > CACHE_ttl)"

definition cleanupCache :: "'a cache \<Rightarrow> 'a cache" where
  "cleanupCache cache =
     (if length cache > CACHE_maxSize
      then
        let entries = sort_key (\<lambda>ke. timestamp (snd ke)) cache;
            toRemove = take (length cache - CACHE_maxSize) entries
        in fold (\<lambda>ke c. cache_delete c (fst ke)) toRemove cache
      else cache)"

text \<open>The cache write of \<open>analyzeFields\<close>: \<open>set\<close> followed by \<open>cleanupCache\<close>.\<close>

definition cache_put :: "'a cache \<Rightarrow> string \<Rightarrow> 'a \<Rightarrow> int \<Rightarrow> 'a cache" where
  "cache_put cache key analysis now =
     cleanupCache (cache_set cache key \<lparr>data = analysis, timestamp = now\<rparr>)"

definition cache_puts :: "(string \<times> 'a \<times> int) list \<Rightarrow> 'a cache \<Rightarrow> 'a cache" where
  "cache_puts ps cache = fold (\<lambda>p c. cache_put c (fst p) (fst (snd p)) (snd (snd p))) ps cache"

subsection \<open>Cache keys\<close>

definition base64_alphabet :: string where
  "base64_alphabet = ''ABCDEFGHIJKLMNOPQRSTUVWXYZabcdefghijklmnopqrstuvwxyz0123456789+/''"

definition base64_digit :: "nat \<Rightarrow> char" where
  "base64_digit n = base64_alphabet ! n"

text \<open>
  \<open>btoa\<close>: three characters make four digits of six bits; the last group is padded with
  \<open>=\<close>. It throws on a character above 255, which a \<^typ>\<open>char\<close> never is.
\<close>

fun btoa :: "string \<Rightarrow> string" where
  "btoa (a # b # c # rest) =
     (let x = (of_char a :: nat); y = (of_char b :: nat); z = (of_char c :: nat)
      in [base64_digit (x div 4), base64_digit ((x mod 4) * 16 + y div 16),
          base64_digit ((y mod 16) * 4 + z div 64), base64_digit (z mod 64)] @ btoa rest)"
| "btoa [a, b] =
     (let x = (of_char a :: nat); y = (of_char b :: nat)
      in [base64_digit (x div 4), base64_digit ((x mod 4) * 16 + y div 16),
          base64_digit ((y mod 16) * 4), CHR ''=''])"
| "btoa [a] =
     (let x = (of_char a :: nat)
      in [base64_digit (x div 4), base64_digit ((x mod 4) * 16), CHR ''='', CHR ''=''])"
| "btoa [] = []"

fun join :: "string \<Rightarrow> string list \<Rightarrow> string" where
  "join sep [] = []"
| "join sep [x] = x"
| "join sep (x # y # r) = x @ sep @ join sep (y # r)"

record page_context =
  ctx_atsType :: "string option"
  ctx_url :: "string option"
  ctx_company :: "string option"

definition or_empty :: "string option \<Rightarrow> string" where
  "or_empty v = (case v of None \<Rightarrow> [] | Some s \<Rightarrow> s)"

definition generateFieldCacheKey :: "form_field list \<Rightarrow> page_context \<Rightarrow> string" where
  "generateFieldCacheKey flds ctx =
     (let fieldsHash = join ''|'' (map (\<lambda>f. field_type f @ ''-'' @ name f @ ''-'' @ field_id f
                                             @ ''-'' @ label f) flds);
          contextHash = or_empty (ctx_atsType ctx) @ ''-'' @ or_empty (ctx_url ctx)
      in ''fields-'' @ take 32 (btoa (fieldsHash @ contextHash)))"

section \<open>The inference client\<close>

definition fallbackFieldAnalysis :: "form_field list \<Rightarrow> form_field list" where
  "fallbackFieldAnalysis flds =
     map (\<lambda>field. field\<lparr>
            confidence := Some (max (case confidence field of None \<Rightarrow> 0 | Some c \<Rightarrow> c) (3 / 10)),
            mappingMethod := Some (case mappingMethod field of
                                     None \<Rightarrow> ''fallback''
                                   | Some m \<Rightarrow> if m = [] then ''fallback'' else m),
            llmReasoning := Some ''LLM analysis unavailable, using heuristic fallback''\<rparr>) flds"

text \<open>
  The remote provider is outside the program. What one call of \<open>fetch\<close> brings back is
  an input: \<open>FetchError\<close> when \<open>makeGeminiRequest\<close> throws (transport failure or a status
  that is not ok), otherwise the decoded array of the response text, \<open>None\<close> when the
  text is missing or holds no array that \<open>JSON.parse\<close> accepts. An element of the array
  is \<open>None\<close> when it is \<open>null\<close>, on which reading \<open>fieldIndex\<close> throws.
\<close>

record llm_item =
  fieldIndex :: "int option"
  item_purpose :: "string option"
  item_confidence :: "rat option"
  reasoning :: "string option"

datatype fetch_outcome = FetchError | Response "llm_item option list option"

fun find_analysis :: "llm_item option list \<Rightarrow> int \<Rightarrow> llm_item option option" where
  "find_analysis [] i = Some None"
| "find_analysis (None # rest) i = None"
| "find_analysis (Some a # rest) i =
     (if fieldIndex a = Some i then Some (Some a) else find_analysis rest i)"

fun enhance :: "llm_item option list \<Rightarrow> form_field list \<Rightarrow> nat \<Rightarrow> form_field list option" where
  "enhance analysis [] index = Some []"
| "enhance analysis (field # rest) index =
     (case find_analysis analysis (int index + 1) of
        None \<Rightarrow> None
      | Some fieldAnalysis \<Rightarrow>
          (case enhance analysis rest (index + 1) of
             None \<Rightarrow> None
           | Some enhanced \<Rightarrow>
               Some ((case fieldAnalysis of
                        None \<Rightarrow> field
                      | Some a \<Rightarrow> field\<lparr>purpose := item_purpose a,
                                         confidence := item_confidence a,
                                         llmReasoning := reasoning a,
                                         mappingMethod := Some ''llm''\<rparr>) # enhanced)))"

definition parseFieldAnalysisResponse :: "llm_item option list option \<Rightarrow> form_field list \<Rightarrow> form_field list" where
  "parseFieldAnalysisResponse response originalFields =
     (case response of
        None \<Rightarrow> originalFields
      | Some analysis \<Rightarrow>
          (case enhance analysis originalFields 0 of
             None \<Rightarrow> originalFields
           | Some enhancedFields \<Rightarrow> enhancedFields))"

text \<open>
  The module state of the client, with a counter of the calls of \<open>fetch\<close>, and what one
  call of \<open>analyzeFields\<close> takes from outside: the clock at the four places that read it
  (\<open>canMakeRequest\<close>, \<open>isCacheExpired\<close>, \<open>updateRateLimit\<close>, the cache write) and the
  outcome of the remote call.
\<close>

record client_state =
  RATE_LIMIT :: rate_limit
  fieldAnalysis :: "form_field list cache"
  remoteCalls :: nat

record call_env =
  now_check :: int
  now_expiry :: int
  now_commit :: int
  now_store :: int
  fetched :: fetch_outcome

definition requestAndStore :: "call_env \<Rightarrow> form_field list \<Rightarrow> string \<Rightarrow> client_state
    \<Rightarrow> form_field list \<times> client_state" where
  "requestAndStore env flds cacheKey s =
     (let s1 = s\<lparr>remoteCalls := remoteCalls s + 1\<rparr>
      in case fetched env of
           FetchError \<Rightarrow> (fallbackFieldAnalysis flds, s1)
         | Response response \<Rightarrow>
             (let s2 = s1\<lparr>RATE_LIMIT := updateRateLimit (now_commit env) (RATE_LIMIT s1)\<rparr>;
                  analysis = parseFieldAnalysisResponse response flds
              in (analysis,
                  s2\<lparr>fieldAnalysis := cache_put (fieldAnalysis s2) cacheKey analysis (now_store env)\<rparr>)))"

definition analyzeFields :: "call_env \<Rightarrow> form_field list \<Rightarrow> page_context \<Rightarrow> client_state
    \<Rightarrow> form_field list \<times> client_state" where
  "analyzeFields env flds ctx s =
     (let (rl, granted) = canMakeRequest (now_check env) (RATE_LIMIT s);
          s1 = s\<lparr>RATE_LIMIT := rl\<rparr>
      in if \<not> granted then (fallbackFieldAnalysis flds, s1)
         else
           let cacheKey = generateFieldCacheKey flds ctx
           in case cache_get (fieldAnalysis s1) cacheKey of
                None \<Rightarrow> requestAndStore env flds cacheKey s1
              | Some cachedResult \<Rightarrow>
                  if \<not> isCacheExpired (now_expiry env) cachedResult
                  then (data cachedResult, s1)
                  else requestAndStore env flds cacheKey s1)"

section \<open>Auxiliary notions and example inputs\<close>

text \<open>
  Two field objects have the same descriptor when the properties read from the DOM
  agree; \<open>mapFields\<close> writes none of them.
\<close>

definition same_descriptor :: "form_field \<Rightarrow> form_field \<Rightarrow> bool" where
  "same_descriptor f f' \<longleftrightarrow>
     element f' = element f \<and> field_type f' = field_type f \<and> name f' = name f \<and>
     field_id f' = field_id f \<and> placeholder f' = placeholder f \<and> label f' = label f \<and>
     required f' = required f"

definition well_mapped :: "form_field \<Rightarrow> bool" where
  "well_mapped f \<longleftrightarrow>
     purpose f \<noteq> None \<and>
     mappingMethod f \<in> {Some ''ats-specific'', Some ''heuristic'', Some ''question-pattern'', Some ''none''} \<and>
     (case confidence f of None \<Rightarrow> False | Some c \<Rightarrow> 0 \<le> c \<and> c \<le> 1)"

definition ats_mapped :: "form_field \<Rightarrow> bool" where
  "ats_mapped f \<longleftrightarrow> mappingMethod f = Some ''ats-specific'' \<and> confidence f = Some (9 / 10)"

text \<open>
  The heuristic scorer in the words of the specification: every purpose whose confidence
  exceeds 0.3 qualifies, the qualifying purpose with the highest confidence wins, and the
  earlier one in the table wins a tie.
\<close>

definition qualifying_purposes :: "form_field \<Rightarrow> (string \<times> rat) list" where
  "qualifying_purposes field =
     filter (\<lambda>pc. snd pc > 3 / 10)
       (map (\<lambda>e. (fst e, heuristic_confidence (heuristic_fieldText field) (field_type field) (snd e)))
          HEURISTIC_PATTERNS)"

fun highest_confidence :: "string \<times> rat \<Rightarrow> (string \<times> rat) list \<Rightarrow> string \<times> rat" where
  "highest_confidence best [] = best"
| "highest_confidence best (pc # rest) =
     highest_confidence (if snd pc > snd best then pc else best) rest"

definition scoreByHeuristics_spec :: "form_field \<Rightarrow> jsval" where
  "scoreByHeuristics_spec field =
     (case qualifying_purposes field of
        [] \<Rightarrow> Obj ''unknown'' 0
      | pc # rest \<Rightarrow>
          (let best = highest_confidence pc rest in Obj (fst best) (min (snd best) (8 / 10))))"

text \<open>
  The pattern matcher in the words of the specification: the table is applied to the
  lower-cased concatenation of name, id, placeholder and label.
\<close>

definition matchByPattern_spec :: "form_field \<Rightarrow> string" where
  "matchByPattern_spec field =
     patterns_loop
       (toLowerCase (name field @ '' '' @ field_id field @ '' '' @ placeholder field @ '' '' @ label field))
       QUESTION_PATTERNS"

text \<open>Example inputs.\<close>

definition scenario_A_field :: form_field where
  "scenario_A_field =
     \<lparr>element = Some 0, field_type = ''text'', name = ''first_name'', field_id = [],
      placeholder = [], label = ''First Name'', required = False, purpose = Some ''firstName'',
      confidence = None, mappingMethod = None, needsLLMAnalysis = False,
      needsManualReview = False, llmReasoning = None\<rparr>"

definition scenario_B_field :: form_field where
  "scenario_B_field =
     \<lparr>element = Some 0, field_type = ''email'', name = ''email'', field_id = [],
      placeholder = [], label = [], required = True, purpose = Some ''email'',
      confidence = None, mappingMethod = None, needsLLMAnalysis = False,
      needsManualReview = False, llmReasoning = None\<rparr>"

definition city_country_field :: form_field where
  "city_country_field =
     \<lparr>element = Some 0, field_type = ''text'', name = ''location'', field_id = [],
      placeholder = [], label = ''City, Country'', required = False, purpose = Some ''city'',
      confidence = None, mappingMethod = None, needsLLMAnalysis = False,
      needsManualReview = False, llmReasoning = None\<rparr>"

definition motivation_field :: form_field where
  "motivation_field =
     \<lparr>element = Some 0, field_type = ''textarea'', name = ''why_interested'',
      field_id = ''why_interested'', placeholder = [], label = ''Motivation'', required = False,
      purpose = Some ''whyInterested'', confidence = None, mappingMethod = None,
      needsLLMAnalysis = False, needsManualReview = False, llmReasoning = None\<rparr>"

text \<open>A document in which \<open>input[name*="email"]\<close> selects the elements named so.\<close>

definition name_document :: document where
  \<open>name_document el nm fid selector =
     (selector = ''input[name*="email"]'' \<and> str_includes nm ''email'')\<close>

text \<open>The committed requests of a history, and the checks that fall within a window.\<close>

fun is_commit :: "rl_event \<Rightarrow> bool" where
  "is_commit (Commit now) = True"
| "is_commit (Check now) = False"

definition committed :: "rl_event list \<Rightarrow> nat" where
  "committed es = length (filter is_commit es)"

fun in_window :: "int \<Rightarrow> rl_event \<Rightarrow> bool" where
  "in_window start (Check now) = (now - start \<le> 24 * 60 * 60 * 1000)"
| "in_window start (Commit now) = True"

text \<open>The cache entry a put writes.\<close>

definition entry_of :: "string \<times> 'a \<times> int \<Rightarrow> string \<times> 'a cache_entry" where
  "entry_of p = (fst p, \<lparr>data = fst (snd p), timestamp = snd (snd p)\<rparr>)"

text \<open>
  Example inputs of the client: a day window that starts at \<open>window_start\<close>, in which a
  caller checks and commits every two seconds; a page context; a batch of one field
  as \<open>mapFields\<close> leaves it; the calls of \<open>analyzeFields\<close> used below; and a run of puts
  that refreshes one key each time its entry has expired.
\<close>

definition window_start :: int where
  "window_start = 1700000000000"

fun every_two_seconds :: "nat \<Rightarrow> rl_event list" where
  "every_two_seconds 0 = []"
| "every_two_seconds (Suc n) =
     every_two_seconds n
     @ [Check (window_start + 2000 * int n), Commit (window_start + 2000 * int n + 500)]"

definition busy_day :: "rl_event list" where
  "busy_day = every_two_seconds 1500"

definition fresh_window :: rate_limit where
  "fresh_window = \<lparr>lastRequestTime = 0, dailyUsage = 0, dailyResetTime = window_start\<rparr>"

definition careers_page :: page_context where
  "careers_page =
     \<lparr>ctx_atsType = Some ''greenhouse'', ctx_url = Some ''https://boards.example/jobs/1'',
      ctx_company = None\<rparr>"

definition unmapped_field :: form_field where
  "unmapped_field =
     \<lparr>element = Some 0, field_type = ''text'', name = ''q_17'', field_id = ''q_17'',
      placeholder = [], label = ''Referral code'', required = False, purpose = Some ''unknown'',
      confidence = Some 0, mappingMethod = Some ''heuristic'', needsLLMAnalysis = False,
      needsManualReview = False, llmReasoning = None\<rparr>"

definition initial_state :: client_state where
  "initial_state = \<lparr>RATE_LIMIT = RATE_LIMIT_initial, fieldAnalysis = [], remoteCalls = 0\<rparr>"

definition first_call :: call_env where
  "first_call =
     \<lparr>now_check = window_start, now_expiry = window_start, now_commit = window_start + 900,
      now_store = window_start + 901,
      fetched = Response (Some [Some \<lparr>fieldIndex = Some 1, item_purpose = Some ''additionalInfo'',
                                        item_confidence = Some (6 / 10),
                                        reasoning = Some ''free text''\<rparr>])\<rparr>"

definition early_second_call :: call_env where
  "early_second_call =
     \<lparr>now_check = window_start + 1400, now_expiry = window_start + 1400,
      now_commit = window_start + 2300, now_store = window_start + 2301, fetched = FetchError\<rparr>"

definition later_second_call :: call_env where
  "later_second_call =
     \<lparr>now_check = window_start + 5000, now_expiry = window_start + 5000,
      now_commit = window_start + 5900, now_store = window_start + 5901, fetched = FetchError\<rparr>"

definition stale_call :: call_env where
  "stale_call =
     \<lparr>now_check = window_start + 901 + CACHE_ttl + 1, now_expiry = window_start + 901 + CACHE_ttl + 1,
      now_commit = window_start + 901 + CACHE_ttl + 800, now_store = window_start + 901 + CACHE_ttl + 801,
      fetched = Response None\<rparr>"

definition refresh_puts :: "(string \<times> unit \<times> int) list" where
  "refresh_puts = map (\<lambda>i. (''fields-dGV4dC1xXzE3LXFfMTctUmVmZXJyYWwg'', (), window_start + 86400001 * i)) [0..100]"

definition numbered_puts :: "nat \<Rightarrow> (string \<times> unit \<times> int) list" where
  "numbered_puts n =
     map (\<lambda>i. (''fields-'' @ replicate i (CHR ''A''), (), window_start + 1000 * int i)) [0..<n]"

definition first_result :: "form_field list" where
  "first_result =
     [unmapped_field\<lparr>purpose := Some ''additionalInfo'', confidence := Some (6 / 10),
                     llmReasoning := Some ''free text'', mappingMethod := Some ''llm''\<rparr>]"

definition warm_state :: client_state where
  "warm_state =
     \<lparr>RATE_LIMIT = \<lparr>lastRequestTime = window_start + 900, dailyUsage = 1,
                     dailyResetTime = window_start\<rparr>,
      fieldAnalysis = [(''fields-dGV4dC1xXzE3LXFfMTctUmVmZXJyYWwg'',
                        \<lparr>data = first_result, timestamp = window_start + 901\<rparr>)],
      remoteCalls = 1\<rparr>"

section \<open>Properties of the field mapper\<close>


lemma heuristics_loop_range:
  "heuristics_loop t ty tbl = Obj p c \<Longrightarrow> p \<noteq> ''unknown'' \<Longrightarrow> 3 / 10 < c \<and> c \<le> 8 / 10"
  by (induction tbl) (auto simp: Let_def split: if_splits)

lemma heuristics_loop_is_obj: "\<exists>p c. heuristics_loop t ty tbl = Obj p c"
  by (induction tbl) (auto simp: Let_def)

lemma heuristics_loop_unit:
  "heuristics_loop t ty tbl = Obj p c \<Longrightarrow> 0 \<le> c \<and> c \<le> 1"
  by (induction tbl) (auto simp: Let_def split: if_splits)

lemma heuristics_loop_find:
  "heuristics_loop t ty tbl =
     (case find (\<lambda>e. heuristic_confidence t ty (snd e) > 3 / 10) tbl of
        None \<Rightarrow> Obj ''unknown'' 0
      | Some e \<Rightarrow> Obj (fst e) (min (heuristic_confidence t ty (snd e)) (8 / 10)))"
  by (induction tbl) (auto simp: Let_def)

lemma patterns_loop_find:
  "patterns_loop t tbl =
     (case find (\<lambda>e. list_ex (\<lambda>rx. rx_test rx t) (snd e)) tbl of
        None \<Rightarrow> ''unknown''
      | Some e \<Rightarrow> fst e)"
  by (induction tbl) auto


lemma mapFieldByHeuristics_is_obj: "\<exists>p c. mapFieldByHeuristics field = Obj p c"
  unfolding mapFieldByHeuristics_def by (rule heuristics_loop_is_obj)

lemma mapFieldByHeuristics_unit:
  "0 \<le> obj_confidence (mapFieldByHeuristics field) \<and> obj_confidence (mapFieldByHeuristics field) \<le> 1"
proof -
  obtain p c where pc: "mapFieldByHeuristics field = Obj p c"
    using mapFieldByHeuristics_is_obj by blast
  then have "0 \<le> c \<and> c \<le> 1"
    unfolding mapFieldByHeuristics_def by (rule heuristics_loop_unit)
  with pc show ?thesis by simp
qed

lemma ats_loop_desc:
  "element f' = element f \<Longrightarrow> name f' = name f \<Longrightarrow> field_id f' = field_id f \<Longrightarrow>
     ats_loop doc f' rules = ats_loop doc f rules"
  by (induction rules) (auto simp: matchesSelector_def list_ex_iff)

lemma mapFieldByATS_desc:
  "element f' = element f \<Longrightarrow> name f' = name f \<Longrightarrow> field_id f' = field_id f \<Longrightarrow>
     mapFieldByATS doc f' a = mapFieldByATS doc f a"
  by (simp add: mapFieldByATS_def ats_loop_desc [of f' f] split: option.splits)

lemma mapField_descriptor: "same_descriptor f (fst (mapField doc a f))"
  by (simp add: mapField_def same_descriptor_def Let_def)

lemma mapField_ats:
  "mapFieldByATS doc f a \<noteq> ''unknown'' \<Longrightarrow>
     mapField doc a f = (f\<lparr>purpose := Some (mapFieldByATS doc f a), confidence := Some (9 / 10),
                          mappingMethod := Some ''ats-specific''\<rparr>, [RuleSet])"
  by (simp add: mapField_def Let_def)


lemma mapField_reached:
  "mapField doc a f =
     (if mapFieldByATS doc f a \<noteq> ''unknown''
      then (f\<lparr>purpose := Some (mapFieldByATS doc f a), confidence := Some (9 / 10),
               mappingMethod := Some ''ats-specific''\<rparr>, [RuleSet])
      else (f\<lparr>purpose := Some (obj_purpose (mapFieldByHeuristics f)),
               confidence := Some (obj_confidence (mapFieldByHeuristics f)),
               mappingMethod := Some ''heuristic''\<rparr>, [RuleSet, HeuristicScorer]))"
proof -
  obtain p c where "mapFieldByHeuristics f = Obj p c"
    using mapFieldByHeuristics_is_obj by blast
  then show ?thesis by (simp add: mapField_def Let_def)
qed

lemma mapField_well_mapped: "well_mapped (fst (mapField doc a f))"
  using mapFieldByHeuristics_unit [of f]
  by (simp add: mapField_reached well_mapped_def)

lemma same_descriptor_refl: "same_descriptor f f"
  by (simp add: same_descriptor_def)

lemma same_descriptor_trans:
  "same_descriptor f g \<Longrightarrow> same_descriptor g k \<Longrightarrow> same_descriptor f k"
  by (simp add: same_descriptor_def)

lemma mapFieldByATS_same_descriptor:
  "same_descriptor f f' \<Longrightarrow> mapFieldByATS doc f' a = mapFieldByATS doc f a"
  by (rule mapFieldByATS_desc) (simp_all add: same_descriptor_def)

lemma map_callback_frame:
  "map_callback doc a flds h = (out, h', calls) \<Longrightarrow>
     out = flds \<and> length calls = length flds \<and>
     (\<forall>r. same_descriptor (h r) (h' r)) \<and> (\<forall>r. r \<notin> set flds \<longrightarrow> h' r = h r)"
proof (induction flds arbitrary: h out h' calls)
  case Nil
  then show ?case by (simp add: same_descriptor_refl)
next
  case (Cons x xs)
  obtain f' called where m: "mapField doc a (h x) = (f', called)"
    by (cases "mapField doc a (h x)")
  obtain out1 h1 calls1 where rec: "map_callback doc a xs (h(x := f')) = (out1, h1, calls1)"
    by (cases "map_callback doc a xs (h(x := f'))")
  from Cons.prems m rec have res: "out = x # out1" "h' = h1" "calls = called # calls1"
    by simp_all
  from Cons.IH [OF rec] have ih:
    "out1 = xs" "length calls1 = length xs"
    "\<forall>r. same_descriptor ((h(x := f')) r) (h1 r)" "\<forall>r. r \<notin> set xs \<longrightarrow> h1 r = (h(x := f')) r"
    by simp_all
  have f': "same_descriptor (h x) f'"
    using mapField_descriptor [of "h x" doc a] m by simp
  have "same_descriptor (h r) (h1 r)" for r
  proof (cases "r = x")
    case True
    with ih(3) have "same_descriptor f' (h1 r)" by (metis fun_upd_same)
    with f' True show ?thesis by (metis same_descriptor_trans)
  next
    case False
    with ih(3) show ?thesis by (metis fun_upd_other)
  qed
  with res ih show ?case by simp
qed

lemma map_callback_well_mapped:
  "map_callback doc a flds h = (out, h', calls) \<Longrightarrow>
     r \<in> set flds \<or> well_mapped (h r) \<Longrightarrow> well_mapped (h' r)"
proof (induction flds arbitrary: h out h' calls)
  case Nil
  then show ?case by simp
next
  case (Cons x xs)
  obtain f' called where m: "mapField doc a (h x) = (f', called)"
    by (cases "mapField doc a (h x)")
  obtain out1 h1 calls1 where rec: "map_callback doc a xs (h(x := f')) = (out1, h1, calls1)"
    by (cases "map_callback doc a xs (h(x := f'))")
  from Cons.prems(1) m rec have res: "h' = h1" by simp
  have f': "well_mapped f'"
    using mapField_well_mapped [of doc a "h x"] m by simp
  have "r \<in> set xs \<or> well_mapped ((h(x := f')) r)"
    using Cons.prems(2) f' by auto
  from Cons.IH [OF rec this] res show ?case by simp
qed

lemma map_callback_ats_mapped:
  "map_callback doc a flds h = (out, h', calls) \<Longrightarrow>
     mapFieldByATS doc (h r) a \<noteq> ''unknown'' \<Longrightarrow>
     r \<in> set flds \<or> ats_mapped (h r) \<Longrightarrow> ats_mapped (h' r)"
proof (induction flds arbitrary: h out h' calls)
  case Nil
  then show ?case by simp
next
  case (Cons x xs)
  obtain f' called where m: "mapField doc a (h x) = (f', called)"
    by (cases "mapField doc a (h x)")
  obtain out1 h1 calls1 where rec: "map_callback doc a xs (h(x := f')) = (out1, h1, calls1)"
    by (cases "map_callback doc a xs (h(x := f'))")
  from Cons.prems(1) m rec have res: "h' = h1" by simp
  have desc: "same_descriptor (h x) f'"
    using mapField_descriptor [of "h x" doc a] m by simp
  have ats: "mapFieldByATS doc ((h(x := f')) r) a \<noteq> ''unknown''"
    using Cons.prems(2) mapFieldByATS_same_descriptor [OF desc, of doc a] by (cases "r = x") auto
  have "r \<in> set xs \<or> ats_mapped ((h(x := f')) r)"
  proof (cases "r = x")
    case True
    with Cons.prems(2) m have "f' = fst (h x\<lparr>purpose := Some (mapFieldByATS doc (h x) a),
        confidence := Some (9 / 10), mappingMethod := Some ''ats-specific''\<rparr>, [RuleSet])"
      using mapField_ats [of doc "h x" a] by simp
    with True show ?thesis by (simp add: ats_mapped_def)
  next
    case False
    with Cons.prems(3) show ?thesis by auto
  qed
  from Cons.IH [OF rec ats this] res show ?case by simp
qed

lemma map_callback_ats_calls:
  "map_callback doc a flds h = (out, h', calls) \<Longrightarrow> i < length flds \<Longrightarrow>
     mapFieldByATS doc (h (flds ! i)) a \<noteq> ''unknown'' \<Longrightarrow> calls ! i = [RuleSet]"
proof (induction flds arbitrary: h out h' calls i)
  case Nil
  then show ?case by simp
next
  case (Cons x xs)
  obtain f' called where m: "mapField doc a (h x) = (f', called)"
    by (cases "mapField doc a (h x)")
  obtain out1 h1 calls1 where rec: "map_callback doc a xs (h(x := f')) = (out1, h1, calls1)"
    by (cases "map_callback doc a xs (h(x := f'))")
  from Cons.prems(1) m rec have res: "calls = called # calls1" by simp
  show ?case
  proof (cases i)
    case 0
    with Cons.prems(3) m have "called = [RuleSet]"
      using mapField_ats [of doc "h x" a] by simp
    with res 0 show ?thesis by simp
  next
    case (Suc j)
    with Cons.prems(2) have j: "j < length xs" by simp
    have desc: "same_descriptor (h x) f'"
      using mapField_descriptor [of "h x" doc a] m by simp
    have "mapFieldByATS doc ((h(x := f')) (xs ! j)) a \<noteq> ''unknown''"
      using Cons.prems(3) Suc mapFieldByATS_same_descriptor [OF desc, of doc a]
      by (cases "xs ! j = x") auto
    from Cons.IH [OF rec j this] res Suc show ?thesis by simp
  qed
qed

lemma scheduleLLMAnalysis_keeps:
  "mappingMethod (scheduleLLMAnalysis rs h r) = mappingMethod (h r) \<and>
   confidence (scheduleLLMAnalysis rs h r) = confidence (h r) \<and>
   purpose (scheduleLLMAnalysis rs h r) = purpose (h r) \<and>
   same_descriptor (h r) (scheduleLLMAnalysis rs h r) \<and>
   (r \<notin> set rs \<longrightarrow> scheduleLLMAnalysis rs h r = h r)"
  unfolding scheduleLLMAnalysis_def
  by (induction rs arbitrary: h) (auto simp: same_descriptor_def)

lemma mapFields_unfold:
  "map_callback doc a flds h = (out, h1, calls) \<Longrightarrow>
     mapFields doc flds a h =
       (out, (if length (filter (\<lambda>r. needsLLMAnalysis (h1 r)) out) > 0
              then scheduleLLMAnalysis (filter (\<lambda>r. needsLLMAnalysis (h1 r)) out) h1 else h1), calls)"
  by (simp add: mapFields_def Let_def)

lemma scenario_B_ats: "mapFieldByATS name_document scenario_B_field ''greenhouse'' = ''email''"
  by (simp add: mapFieldByATS_def ATS_FIELD_RULES_def matchesSelector_def name_document_def
      scenario_B_field_def)

lemma scenario_A_heuristics: "mapFieldByHeuristics scenario_A_field = Obj ''fullName'' (4 / 13)"
  by code_simp

subsection \<open>Claims about the mapper\<close>

text \<open>
  Claim C1. When \<open>mapFieldByATS\<close> returns a purpose other than \<open>unknown\<close> for the
  field at position \<open>i\<close> of the batch, the object \<open>mapFields\<close> returns at that position
  has \<open>mappingMethod = "ats-specific"\<close> and \<open>confidence = 0.9\<close>, and the callback called
  the rule stage only: neither the heuristic scorer nor the pattern matcher was consulted.
\<close>

theorem ruleset_match_is_ats_specific:
  assumes "i < length flds"
    and "mapFieldByATS doc (h (flds ! i)) atsType \<noteq> ''unknown''"
  shows "case mapFields doc flds atsType h of
           (out, h', calls) \<Rightarrow>
             mappingMethod (h' (out ! i)) = Some ''ats-specific'' \<and>
             confidence (h' (out ! i)) = Some (9 / 10) \<and>
             calls ! i = [RuleSet]"
proof -
  obtain out h1 calls where mc: "map_callback doc atsType flds h = (out, h1, calls)"
    by (cases "map_callback doc atsType flds h")
  from map_callback_frame [OF mc] have out: "out = flds" by simp
  from assms(1) have "flds ! i \<in> set flds" by simp
  then have "ats_mapped (h1 (flds ! i))"
    using map_callback_ats_mapped [OF mc assms(2)] by simp
  moreover have "calls ! i = [RuleSet]"
    using map_callback_ats_calls [OF mc assms] .
  ultimately show ?thesis
    using out scheduleLLMAnalysis_keeps [of _ h1 "flds ! i"]
    by (simp add: mapFields_unfold [OF mc] ats_mapped_def)
qed

text \<open>
  Claim C1, at an input: the field of scenario B on platform \<open>greenhouse\<close>.
\<close>

theorem ruleset_match_is_ats_specific_witness:
  "0 < length [0::nat] \<and>
   mapFieldByATS name_document ((\<lambda>_. scenario_B_field) ([0] ! 0)) ''greenhouse'' \<noteq> ''unknown'' \<and>
   (case mapFields name_document [0] ''greenhouse'' (\<lambda>_. scenario_B_field) of
      (out, h', calls) \<Rightarrow>
        mappingMethod (h' (out ! 0)) = Some ''ats-specific'' \<and>
        confidence (h' (out ! 0)) = Some (9 / 10) \<and>
        calls ! 0 = [RuleSet])"
proof -
  have a: "0 < length [0::nat]" by simp
  have b: "mapFieldByATS name_document ((\<lambda>_. scenario_B_field) ([0] ! 0)) ''greenhouse'' \<noteq> ''unknown''"
    by (simp add: scenario_B_ats)
  from a b ruleset_match_is_ats_specific [OF a b] show ?thesis by blast
qed

text \<open>
  Claim C2, as amended. A purpose qualifies exactly when its confidence (matched
  predicates over the predicate count of the purpose) exceeds 0.3, and
  \<open>mapFieldByHeuristics\<close> returns the first qualifying purpose in the order of the table,
  with the confidence capped at 0.8; it does not look for the highest confidence.
\<close>

theorem heuristic_first_qualifying:
  "mapFieldByHeuristics field =
     (case find (\<lambda>e. heuristic_confidence (heuristic_fieldText field) (field_type field) (snd e) > 3 / 10)
             HEURISTIC_PATTERNS of
        None \<Rightarrow> Obj ''unknown'' 0
      | Some e \<Rightarrow>
          Obj (fst e)
            (min (heuristic_confidence (heuristic_fieldText field) (field_type field) (snd e)) (8 / 10)))"
  unfolding mapFieldByHeuristics_def by (rule heuristics_loop_find)

text \<open>
  Claim C2 as stated fails: for a text field labelled "City, Country" the source returns
  \<open>city\<close> with confidence 4/9, and the qualifying purpose with the highest confidence is
  \<open>country\<close> with 4/7.
\<close>

theorem heuristic_highest_counterexample:
  "mapFieldByHeuristics city_country_field = Obj ''city'' (4 / 9) \<and>
   scoreByHeuristics_spec city_country_field = Obj ''country'' (4 / 7)"
  by code_simp

text \<open>
  Claim C3. When \<open>mapFieldByHeuristics\<close> returns a purpose other than \<open>unknown\<close>, the
  confidence it returns is greater than 0.3 and at most 0.8.
\<close>

theorem heuristic_confidence_range:
  "obj_purpose (mapFieldByHeuristics field) \<noteq> ''unknown'' \<Longrightarrow>
     3 / 10 < obj_confidence (mapFieldByHeuristics field) \<and>
     obj_confidence (mapFieldByHeuristics field) \<le> 8 / 10"
proof -
  assume a: "obj_purpose (mapFieldByHeuristics field) \<noteq> ''unknown''"
  obtain p c where pc: "mapFieldByHeuristics field = Obj p c"
    using heuristics_loop_is_obj [of "heuristic_fieldText field" "field_type field" HEURISTIC_PATTERNS]
    unfolding mapFieldByHeuristics_def by blast
  with a have "p \<noteq> ''unknown''" by simp
  with pc have "3 / 10 < c \<and> c \<le> 8 / 10"
    unfolding mapFieldByHeuristics_def by (rule heuristics_loop_range)
  with pc show ?thesis by simp
qed

text \<open>
  Claim C3, at an input: the field of scenario A, which the scorer maps to \<open>fullName\<close>
  with confidence 4/13.
\<close>

theorem heuristic_confidence_range_witness:
  "obj_purpose (mapFieldByHeuristics scenario_A_field) \<noteq> ''unknown'' \<and>
   3 / 10 < obj_confidence (mapFieldByHeuristics scenario_A_field) \<and>
   obj_confidence (mapFieldByHeuristics scenario_A_field) \<le> 8 / 10"
proof -
  have a: "obj_purpose (mapFieldByHeuristics scenario_A_field) \<noteq> ''unknown''"
    by (simp add: scenario_A_heuristics)
  from a heuristic_confidence_range [OF a] show ?thesis by blast
qed

text \<open>
  Claim C4, as amended. \<open>mapFieldByQuestionPatterns\<close> applies the ordered table of
  regular expressions to the lower-cased concatenation of the label and the placeholder of
  the field, and returns the first purpose one of whose expressions matches.
\<close>

theorem pattern_first_match:
  "mapFieldByQuestionPatterns field =
     (case find (\<lambda>e. list_ex (\<lambda>rx. rx_test rx (toLowerCase (label field @ '' '' @ placeholder field)))
                       (snd e))
             QUESTION_PATTERNS of
        None \<Rightarrow> ''unknown''
      | Some e \<Rightarrow> fst e)"
  unfolding mapFieldByQuestionPatterns_def questionText_def by (rule patterns_loop_find)

text \<open>
  Claim C4 as stated fails: a field whose name and id are \<open>why_interested\<close> and whose
  label is "Motivation" is not matched by the source, and the table applied to name, id,
  placeholder and label gives \<open>whyInterested\<close>.
\<close>

theorem pattern_text_counterexample:
  "mapFieldByQuestionPatterns motivation_field = ''unknown'' \<and>
   matchByPattern_spec motivation_field = ''whyInterested''"
  by code_simp

text \<open>
  Claim C10. \<open>mapFields\<close> returns the array of the very references it was given, in
  the same order; the objects are mutated in place, their descriptor properties and every
  object outside the batch are left as they were; and every object of the batch ends with
  a defined purpose, a \<open>mappingMethod\<close> among \<open>ats-specific\<close>, \<open>heuristic\<close>,
  \<open>question-pattern\<close> and \<open>none\<close>, and a confidence between 0 and 1.
\<close>

theorem mapFields_shape:
  "case mapFields doc flds atsType h of
     (out, h', calls) \<Rightarrow>
       out = flds \<and>
       (\<forall>r. element (h' r) = element (h r) \<and> field_type (h' r) = field_type (h r) \<and>
            name (h' r) = name (h r) \<and> field_id (h' r) = field_id (h r) \<and>
            placeholder (h' r) = placeholder (h r) \<and> label (h' r) = label (h r) \<and>
            required (h' r) = required (h r)) \<and>
       (\<forall>r. r \<notin> set flds \<longrightarrow> h' r = h r) \<and>
       (\<forall>r \<in> set flds.
          purpose (h' r) \<noteq> None \<and>
          mappingMethod (h' r) \<in> {Some ''ats-specific'', Some ''heuristic'',
                                   Some ''question-pattern'', Some ''none''} \<and>
          (\<exists>c. confidence (h' r) = Some c \<and> 0 \<le> c \<and> c \<le> 1))"
proof -
  obtain out h1 calls where mc: "map_callback doc atsType flds h = (out, h1, calls)"
    by (cases "map_callback doc atsType flds h")
  define h2 where "h2 = (if length (filter (\<lambda>r. needsLLMAnalysis (h1 r)) out) > 0
              then scheduleLLMAnalysis (filter (\<lambda>r. needsLLMAnalysis (h1 r)) out) h1 else h1)"
  have res: "mapFields doc flds atsType h = (out, h2, calls)"
    by (simp add: mapFields_unfold [OF mc] h2_def)
  from map_callback_frame [OF mc] have out: "out = flds"
    and desc1: "\<And>r. same_descriptor (h r) (h1 r)"
    and frame1: "\<And>r. r \<notin> set flds \<Longrightarrow> h1 r = h r"
    by simp_all
  have keep: "mappingMethod (h2 r) = mappingMethod (h1 r) \<and> confidence (h2 r) = confidence (h1 r) \<and>
      purpose (h2 r) = purpose (h1 r) \<and> same_descriptor (h1 r) (h2 r)" for r
    using scheduleLLMAnalysis_keeps [of _ h1 r] by (simp add: h2_def same_descriptor_refl)
  have frame2: "h2 r = h1 r" if "r \<notin> set flds" for r
    using scheduleLLMAnalysis_keeps [of "filter (\<lambda>r. needsLLMAnalysis (h1 r)) out" h1 r] that out
    by (simp add: h2_def)
  have desc: "same_descriptor (h r) (h2 r)" for r
    using desc1 [of r] keep [of r] by (metis same_descriptor_trans)
  have wm: "well_mapped (h2 r)" if "r \<in> set flds" for r
  proof -
    from that have "well_mapped (h1 r)"
      using map_callback_well_mapped [OF mc] by simp
    with keep [of r] show ?thesis by (simp add: well_mapped_def)
  qed
  have c: "\<exists>c. confidence (h2 r) = Some c \<and> 0 \<le> c \<and> c \<le> 1" if "r \<in> set flds" for r
    using wm [OF that] by (cases "confidence (h2 r)") (simp_all add: well_mapped_def)
  show ?thesis
    using out desc frame1 frame2 wm c
    by (simp add: res same_descriptor_def well_mapped_def)
qed

text \<open>
  Claim C10, at an input: a batch of two objects on platform \<open>greenhouse\<close>.
\<close>

theorem mapFields_shape_witness:
  "(0::nat) \<in> set [0, 1] \<and>
   (case mapFields name_document [0, 1] ''greenhouse''
           ((\<lambda>_. scenario_A_field)(0 := scenario_B_field)) of
      (out, h', calls) \<Rightarrow>
        out = [0, 1] \<and> purpose (h' 0) \<noteq> None \<and>
        mappingMethod (h' 0) \<in> {Some ''ats-specific'', Some ''heuristic'',
                                 Some ''question-pattern'', Some ''none''} \<and>
        (\<exists>c. confidence (h' 0) = Some c \<and> 0 \<le> c \<and> c \<le> 1))"
  using mapFields_shape [where doc = name_document and flds = "[0, 1]" and atsType = "''greenhouse''"
      and h = "(\<lambda>_. scenario_A_field)(0 := scenario_B_field)"]
  by (auto split: prod.splits)

section \<open>Properties of the rate limiter\<close>


lemma canMakeRequest_in_window:
  "now - dailyResetTime rl \<le> 24 * 60 * 60 * 1000 \<Longrightarrow>
     canMakeRequest now rl =
       (rl, dailyUsage rl < requestsPerDay \<and> now - lastRequestTime rl \<ge> 1000)"
  by (auto simp: canMakeRequest_def requestsPerMinute_def)

lemma canMakeRequest_after_window:
  "now - dailyResetTime rl > 24 * 60 * 60 * 1000 \<Longrightarrow>
     canMakeRequest now rl =
       (rl\<lparr>dailyUsage := 0, dailyResetTime := now\<rparr>, now - lastRequestTime rl \<ge> 1000)"
  by (auto simp: canMakeRequest_def requestsPerMinute_def requestsPerDay_def)

lemma rl_step_in_window:
  "in_window (dailyResetTime rl) e \<Longrightarrow>
     dailyResetTime (rl_step e rl) = dailyResetTime rl \<and>
     dailyUsage (rl_step e rl) = dailyUsage rl + (if is_commit e then 1 else 0)"
  by (cases e) (simp_all add: canMakeRequest_in_window updateRateLimit_def)

lemma rl_run_in_window:
  "list_all (in_window (dailyResetTime rl)) es \<Longrightarrow>
     dailyResetTime (rl_run es rl) = dailyResetTime rl \<and>
     dailyUsage (rl_run es rl) = dailyUsage rl + int (committed es)"
proof (induction es arbitrary: rl)
  case Nil
  then show ?case by (simp add: rl_run_def committed_def)
next
  case (Cons e es)
  from Cons.prems have e: "in_window (dailyResetTime rl) e" by simp
  note step = rl_step_in_window [OF e]
  from Cons.prems step have "list_all (in_window (dailyResetTime (rl_step e rl))) es"
    by simp
  from Cons.IH [OF this] step show ?case
    by (simp add: rl_run_def committed_def)
qed

text \<open>
  Claim C8. Take a day window that starts with the counter at zero and any history of
  checks and commits whose checks fall within the window. The counter equals the number
  of commits; once \<open>requestsPerDay\<close> requests are committed, an attempt within the window
  is denied and leaves the state as it is; and once \<open>now - dailyResetTime\<close> exceeds 24
  hours, the next check resets the counter and the window start and grants, subject only
  to the interval since the last committed request.
\<close>

theorem daily_limit_and_reset:
  assumes "dailyUsage rl = 0"
    and "list_all (in_window (dailyResetTime rl)) es"
  shows "dailyUsage (rl_run es rl) = int (committed es) \<and>
         (int (committed es) \<ge> requestsPerDay \<longrightarrow> now - dailyResetTime rl \<le> 24 * 60 * 60 * 1000 \<longrightarrow>
            canMakeRequest now (rl_run es rl) = (rl_run es rl, False)) \<and>
         (now - dailyResetTime rl > 24 * 60 * 60 * 1000 \<longrightarrow>
            canMakeRequest now (rl_run es rl) =
              ((rl_run es rl)\<lparr>dailyUsage := 0, dailyResetTime := now\<rparr>,
               now - lastRequestTime (rl_run es rl) \<ge> 1000))"
proof -
  from rl_run_in_window [OF assms(2)] assms(1)
  have r: "dailyResetTime (rl_run es rl) = dailyResetTime rl"
    and u: "dailyUsage (rl_run es rl) = int (committed es)"
    by simp_all
  show ?thesis
    using r u
    by (simp add: canMakeRequest_in_window canMakeRequest_after_window)
qed

lemma rl_run_append: "rl_run (es @ es') rl = rl_run es' (rl_run es rl)"
  by (simp add: rl_run_def)

lemma every_two_seconds_committed: "committed (every_two_seconds n) = n"
  by (induction n) (simp_all add: committed_def)

lemma every_two_seconds_window:
  "n \<le> 1500 \<Longrightarrow> list_all (in_window (dailyResetTime fresh_window)) (every_two_seconds n)"
  by (induction n) (simp_all add: fresh_window_def)

lemma every_two_seconds_last:
  "n \<le> 1500 \<Longrightarrow>
     lastRequestTime (rl_run (every_two_seconds (Suc n)) fresh_window) =
       window_start + 2000 * int n + 500"
  by (simp add: rl_run_append updateRateLimit_def rl_run_def)

text \<open>
  Claim C8, at an input: 1500 checks, each committed, two seconds apart; the attempt
  after them is denied within the window and granted after it.
\<close>

theorem daily_limit_and_reset_witness:
  "dailyUsage fresh_window = 0 \<and>
   list_all (in_window (dailyResetTime fresh_window)) busy_day \<and>
   int (committed busy_day) = requestsPerDay \<and>
   canMakeRequest (window_start + 3000000) (rl_run busy_day fresh_window) =
     (rl_run busy_day fresh_window, False) \<and>
   (window_start + 86400001) - dailyResetTime fresh_window > 24 * 60 * 60 * 1000 \<and>
   canMakeRequest (window_start + 86400001) (rl_run busy_day fresh_window) =
     ((rl_run busy_day fresh_window)\<lparr>dailyUsage := 0, dailyResetTime := window_start + 86400001\<rparr>, True)"
proof -
  have a: "dailyUsage fresh_window = 0" by (simp add: fresh_window_def)
  have b: "list_all (in_window (dailyResetTime fresh_window)) busy_day"
    unfolding busy_day_def by (rule every_two_seconds_window) simp
  have n: "int (committed busy_day) = requestsPerDay"
    by (simp add: busy_day_def every_two_seconds_committed requestsPerDay_def)
  have c: "window_start + 3000000 - dailyResetTime fresh_window \<le> 24 * 60 * 60 * 1000"
    by (simp add: fresh_window_def)
  have d: "(window_start + 86400001) - dailyResetTime fresh_window > 24 * 60 * 60 * 1000"
    by (simp add: fresh_window_def)
  from daily_limit_and_reset [OF a b, of "window_start + 3000000"] n c
  have e: "canMakeRequest (window_start + 3000000) (rl_run busy_day fresh_window) =
     (rl_run busy_day fresh_window, False)" by simp
  from daily_limit_and_reset [OF a b, of "window_start + 86400001"] d
  have f: "canMakeRequest (window_start + 86400001) (rl_run busy_day fresh_window) =
     ((rl_run busy_day fresh_window)\<lparr>dailyUsage := 0, dailyResetTime := window_start + 86400001\<rparr>,
      window_start + 86400001 - lastRequestTime (rl_run busy_day fresh_window) \<ge> 1000)" by blast
  have "lastRequestTime (rl_run busy_day fresh_window) = window_start + 2000 * int 1499 + 500"
    using every_two_seconds_last [of 1499] by (simp add: busy_day_def)
  then have g: "window_start + 86400001 - lastRequestTime (rl_run busy_day fresh_window) \<ge> 1000"
    by simp
  from a b n e d f g show ?thesis by simp
qed

section \<open>Properties of the response cache\<close>


lemma cache_set_fresh:
  "key \<notin> fst ` set cache \<Longrightarrow> cache_set cache key v = cache @ [(key, v)]"
  by (induction cache) auto

lemma cache_set_keys:
  "fst ` set (cache_set cache key v) = insert key (fst ` set cache)"
  by (induction cache) force+

lemma cache_set_distinct:
  "distinct (map fst cache) \<Longrightarrow> distinct (map fst (cache_set cache key v))"
proof (induction cache)
  case Nil
  then show ?case by simp
next
  case (Cons a cache)
  then show ?case
    using cache_set_keys [of cache key v] by (cases a) auto
qed

lemma fold_cache_delete:
  "fold (\<lambda>ke c. cache_delete c (fst ke)) rm cache = filter (\<lambda>ke. fst ke \<notin> fst ` set rm) cache"
proof (induction rm arbitrary: cache)
  case Nil
  then show ?case by simp
next
  case (Cons a rm)
  have "filter (\<lambda>ke. fst ke \<notin> fst ` set rm) (filter (\<lambda>ke. fst ke \<noteq> fst a) cache) =
        filter (\<lambda>ke. fst ke \<notin> fst ` set (a # rm)) cache"
    by (induction cache) auto
  moreover have "fold (\<lambda>ke c. cache_delete c (fst ke)) (a # rm) cache =
        filter (\<lambda>ke. fst ke \<notin> fst ` set rm) (cache_delete cache (fst a))"
    using Cons.IH [of "cache_delete cache (fst a)"] by simp
  ultimately show ?case
    by (simp only: cache_delete_def)
qed

lemma distinct_keys_member:
  assumes "distinct (map fst cache)" "set rm \<subseteq> set cache" "ke \<in> set cache"
  shows "fst ke \<in> fst ` set rm \<longleftrightarrow> ke \<in> set rm"
proof
  assume "fst ke \<in> fst ` set rm"
  then obtain ke' where ke': "ke' \<in> set rm" "fst ke' = fst ke" by auto
  with assms(2) have "ke' \<in> set cache" by auto
  with assms(1,3) ke'(2) have "ke' = ke"
    by (meson distinct_map inj_onD)
  with ke'(1) show "ke \<in> set rm" by simp
qed auto

lemma cleanupCache_filter:
  assumes "distinct (map fst cache)"
  shows "cleanupCache cache =
     filter (\<lambda>ke. ke \<notin> set (take (length cache - CACHE_maxSize)
                                (sort_key (\<lambda>ke. timestamp (snd ke)) cache))) cache"
proof -
  let ?rm = "take (length cache - CACHE_maxSize) (sort_key (\<lambda>ke. timestamp (snd ke)) cache)"
  have sub: "set ?rm \<subseteq> set cache"
    using set_take_subset [of "length cache - CACHE_maxSize" "sort_key (\<lambda>ke. timestamp (snd ke)) cache"]
    by simp
  have "filter (\<lambda>ke. fst ke \<notin> fst ` set ?rm) cache = filter (\<lambda>ke. ke \<notin> set ?rm) cache"
    by (rule filter_cong) (simp_all add: distinct_keys_member [OF assms sub])
  then show ?thesis
    by (simp add: cleanupCache_def Let_def fold_cache_delete)
qed

lemma cleanupCache_set:
  assumes "distinct (map fst cache)"
  shows "set (cleanupCache cache) =
     set (drop (length cache - CACHE_maxSize) (sort_key (\<lambda>ke. timestamp (snd ke)) cache))"
proof -
  let ?s = "sort_key (\<lambda>ke. timestamp (snd ke)) cache"
  let ?j = "length cache - CACHE_maxSize"
  from assms have d: "distinct ?s" by (simp add: distinct_map)
  have disj: "set (take ?j ?s) \<inter> set (drop ?j ?s) = {}"
    using d by (simp add: set_take_disj_set_drop_if_distinct)
  have un: "set cache = set (take ?j ?s) \<union> set (drop ?j ?s)"
    by (metis append_take_drop_id set_append set_sort)
  show ?thesis
    using disj un by (auto simp: cleanupCache_filter [OF assms])
qed

lemma cleanupCache_distinct:
  "distinct (map fst cache) \<Longrightarrow> distinct (map fst (cleanupCache cache))"
  by (simp add: cleanupCache_filter distinct_map_filter)

lemma cleanupCache_length:
  assumes "distinct (map fst cache)"
  shows "length (cleanupCache cache) = min (length cache) CACHE_maxSize"
proof -
  let ?s = "sort_key (\<lambda>ke. timestamp (snd ke)) cache"
  let ?j = "length cache - CACHE_maxSize"
  from assms have "distinct ?s" by (simp add: distinct_map)
  then have d1: "distinct (drop ?j ?s)" by simp
  from cleanupCache_distinct [OF assms] have d2: "distinct (cleanupCache cache)"
    by (simp add: distinct_map)
  have "length (cleanupCache cache) = card (set (cleanupCache cache))"
    using d2 by (simp add: distinct_card)
  also have "\<dots> = card (set (drop ?j ?s))" by (simp add: cleanupCache_set [OF assms])
  also have "\<dots> = length (drop ?j ?s)" using d1 by (simp add: distinct_card)
  finally show ?thesis by simp
qed

lemma cleanupCache_oldest:
  assumes "distinct (map fst cache)" "x \<in> set cache" "x \<notin> set (cleanupCache cache)"
    "y \<in> set (cleanupCache cache)"
  shows "timestamp (snd x) \<le> timestamp (snd y)"
proof -
  let ?s = "sort_key (\<lambda>ke. timestamp (snd ke)) cache"
  let ?j = "length cache - CACHE_maxSize"
  have "sorted (map (\<lambda>ke. timestamp (snd ke)) (take ?j ?s @ drop ?j ?s))"
    by simp
  then have le: "\<forall>a \<in> set (take ?j ?s). \<forall>b \<in> set (drop ?j ?s). timestamp (snd a) \<le> timestamp (snd b)"
    unfolding map_append sorted_append by auto
  have "set cache = set (take ?j ?s) \<union> set (drop ?j ?s)"
    by (metis append_take_drop_id set_append set_sort)
  with assms(2,3) have "x \<in> set (take ?j ?s)"
    by (auto simp: cleanupCache_set [OF assms(1)])
  moreover from assms(4) have "y \<in> set (drop ?j ?s)"
    by (simp add: cleanupCache_set [OF assms(1)])
  ultimately show ?thesis using le by blast
qed

lemma cleanupCache_subset:
  "distinct (map fst cache) \<Longrightarrow> set (cleanupCache cache) \<subseteq> set cache"
  by (auto simp: cleanupCache_filter)


lemma cache_puts_snoc:
  "cache_puts (ps @ [p]) cache =
     cache_put (cache_puts ps cache) (fst p) (fst (snd p)) (snd (snd p))"
  by (simp add: cache_puts_def)

lemma entry_of_simps:
  "fst (entry_of p) = fst p" "timestamp (snd (entry_of p)) = snd (snd p)"
  by (simp_all add: entry_of_def)

lemma cache_put_fresh:
  assumes "fst p \<notin> fst ` set cache"
  shows "cache_put cache (fst p) (fst (snd p)) (snd (snd p)) = cleanupCache (cache @ [entry_of p])"
  using assms by (simp add: cache_put_def cache_set_fresh entry_of_def)

lemma cache_puts_invariant:
  assumes "distinct (map fst ps)"
  shows "set (cache_puts ps []) \<subseteq> entry_of ` set ps \<and>
         distinct (map fst (cache_puts ps [])) \<and>
         length (cache_puts ps []) = min (length ps) CACHE_maxSize \<and>
         (\<forall>x \<in> set ps. \<forall>y \<in> set (cache_puts ps []).
            entry_of x \<notin> set (cache_puts ps []) \<longrightarrow> snd (snd x) \<le> timestamp (snd y))"
  using assms
proof (induction ps rule: rev_induct)
  case Nil
  show ?case by (simp add: cache_puts_def)
next
  case (snoc p ps)
  let ?c = "cache_puts ps []"
  let ?c' = "?c @ [entry_of p]"
  let ?r = "cleanupCache ?c'"
  from snoc.prems have dps: "distinct (map fst ps)" and fresh: "fst p \<notin> fst ` set ps"
    by simp_all
  from snoc.IH [OF dps] have
    sub: "set ?c \<subseteq> entry_of ` set ps" and
    dc: "distinct (map fst ?c)" and
    len: "length ?c = min (length ps) CACHE_maxSize" and
    old: "\<And>x y. x \<in> set ps \<Longrightarrow> y \<in> set ?c \<Longrightarrow> entry_of x \<notin> set ?c \<Longrightarrow>
                 snd (snd x) \<le> timestamp (snd y)"
    by blast+
  have keys: "fst ` set ?c \<subseteq> fst ` set ps"
  proof
    fix k assume "k \<in> fst ` set ?c"
    then obtain ke where ke: "ke \<in> set ?c" "k = fst ke" by auto
    with sub obtain x where "x \<in> set ps" "ke = entry_of x" by auto
    with ke show "k \<in> fst ` set ps" by (simp add: entry_of_simps)
  qed
  with fresh have kc: "fst p \<notin> fst ` set ?c" by blast
  have res: "cache_puts (ps @ [p]) [] = ?r"
    by (simp add: cache_puts_snoc cache_put_fresh [OF kc])
  have dc': "distinct (map fst ?c')"
    using dc kc by (simp add: entry_of_simps)
  have rsub: "set ?r \<subseteq> set ?c'"
    by (rule cleanupCache_subset [OF dc'])
  have rlen: "length ?r = min (length ?c') CACHE_maxSize"
    by (rule cleanupCache_length [OF dc'])
  have a: "set ?r \<subseteq> entry_of ` set (ps @ [p])"
    using rsub sub by auto
  have b: "distinct (map fst ?r)"
    by (rule cleanupCache_distinct [OF dc'])
  have c: "length ?r = min (length (ps @ [p])) CACHE_maxSize"
    using rlen len by simp
  have d: "snd (snd x) \<le> timestamp (snd y)"
    if x: "x \<in> set (ps @ [p])" and y: "y \<in> set ?r" and out: "entry_of x \<notin> set ?r" for x y
  proof (cases "entry_of x \<in> set ?c'")
    case True
    from cleanupCache_oldest [OF dc' True out y] show ?thesis
      by (simp add: entry_of_simps)
  next
    case False
    then have xp: "x \<in> set ps" and xc: "entry_of x \<notin> set ?c"
      using x by auto
    show ?thesis
    proof (cases "y \<in> set ?c")
      case True
      from old [OF xp True xc] show ?thesis .
    next
      case False
      have "card (set ?c) < card (entry_of ` set ps)"
        using sub xp xc by (intro psubset_card_mono) auto
      also have "\<dots> \<le> length ps"
        by (metis card_image_le card_length List.finite_set le_trans)
      finally have "length ?c < length ps"
        using dc by (simp add: distinct_card distinct_map)
      with len have full: "length ?c = CACHE_maxSize" by simp
      with rlen have "length ?r < length ?c'" by simp
      moreover have "distinct ?r"
        using b unfolding distinct_map by (rule conjunct1)
      moreover have "distinct ?c'"
        using dc' unfolding distinct_map by (rule conjunct1)
      ultimately have "card (set ?r) < card (set ?c')"
        by (simp add: distinct_card)
      with rsub obtain z where z: "z \<in> set ?c'" "z \<notin> set ?r"
        by (metis subsetI subset_antisym less_irrefl)
      with y have "z \<noteq> y" by blast
      moreover from y rsub False have "y = entry_of p" by auto
      ultimately have zc: "z \<in> set ?c" using z(1) by auto
      from cleanupCache_oldest [OF dc' z(1) z(2) y]
      have "timestamp (snd z) \<le> timestamp (snd y)" .
      moreover from old [OF xp zc xc] have "snd (snd x) \<le> timestamp (snd z)" .
      ultimately show ?thesis by simp
    qed
  qed
  show ?case
    unfolding res using a b c d by blast
qed

lemma cache_puts_bound:
  "distinct (map fst (cache_puts ps [])) \<and> length (cache_puts ps []) \<le> CACHE_maxSize"
proof (induction ps rule: rev_induct)
  case Nil
  show ?case by (simp add: cache_puts_def)
next
  case (snoc p ps)
  let ?c' = "cache_set (cache_puts ps []) (fst p) \<lparr>data = fst (snd p), timestamp = snd (snd p)\<rparr>"
  from snoc.IH have "distinct (map fst ?c')"
    by (simp add: cache_set_distinct)
  then have "distinct (map fst (cleanupCache ?c'))" "length (cleanupCache ?c') \<le> CACHE_maxSize"
    by (simp_all add: cleanupCache_distinct cleanupCache_length)
  then show ?case
    by (simp add: cache_puts_snoc cache_put_def)
qed

text \<open>
  Claim C6, as amended. For every sequence of puts into the empty cache, the cache holds
  at most \<open>maxSize\<close> entries after each put. When the keys of the puts are pairwise
  distinct, it holds \<open>min N maxSize\<close> entries after all of them (exactly \<open>maxSize\<close> when
  \<open>N > maxSize\<close>), each of them one of the entries put, and every entry that was put and
  is no longer there is at least as old, by its timestamp, as every entry retained.
\<close>

theorem cache_bound_most_recent:
  "(\<forall>n. length (cache_puts (take n ps) []) \<le> CACHE_maxSize) \<and>
   (distinct (map fst ps) \<longrightarrow>
      length (cache_puts ps []) = min (length ps) CACHE_maxSize \<and>
      distinct (map fst (cache_puts ps [])) \<and>
      set (cache_puts ps []) \<subseteq> entry_of ` set ps \<and>
      (\<forall>x \<in> set ps. \<forall>y \<in> set (cache_puts ps []).
         entry_of x \<notin> set (cache_puts ps []) \<longrightarrow> snd (snd x) \<le> timestamp (snd y)))"
  using cache_puts_bound cache_puts_invariant by blast

lemma numbered_puts_distinct: "distinct (map fst (numbered_puts n))"
  by (simp add: numbered_puts_def distinct_map inj_on_def comp_def)

lemma entry_of_inj: "inj_on entry_of A"
  by (auto simp: inj_on_def entry_of_def prod_eq_iff)

lemma numbered_puts_oldest:
  "x \<in> set (numbered_puts (Suc n)) \<Longrightarrow> snd (snd x) \<le> window_start \<Longrightarrow> x = hd (numbered_puts (Suc n))"
  by (auto simp: numbered_puts_def upt_conv_Cons simp del: upt_Suc)

text \<open>
  Claim C6, at an input: 101 puts with distinct keys and increasing timestamps; the cache
  holds 100 entries and the first, oldest entry is gone.
\<close>

theorem cache_bound_most_recent_witness:
  "distinct (map fst (numbered_puts 101)) \<and>
   CACHE_maxSize < length (numbered_puts 101) \<and>
   length (cache_puts (numbered_puts 101) []) = CACHE_maxSize \<and>
   hd (numbered_puts 101) \<in> set (numbered_puts 101) \<and>
   entry_of (hd (numbered_puts 101)) \<notin> set (cache_puts (numbered_puts 101) [])"
proof -
  let ?P = "numbered_puts 101"
  let ?C = "cache_puts ?P []"
  have dP: "distinct (map fst ?P)" by (rule numbered_puts_distinct)
  have lP: "length ?P = 101" by (simp add: numbered_puts_def)
  have hdP: "hd ?P \<in> set ?P" "snd (snd (hd ?P)) = window_start"
    by (simp_all add: numbered_puts_def upt_conv_Cons del: upt_Suc)
  from cache_bound_most_recent [of ?P] dP have
    len: "length ?C = min (length ?P) CACHE_maxSize" and
    dC: "distinct (map fst ?C)" and
    sub: "set ?C \<subseteq> entry_of ` set ?P" and
    old: "\<And>x y. x \<in> set ?P \<Longrightarrow> y \<in> set ?C \<Longrightarrow> entry_of x \<notin> set ?C \<Longrightarrow>
                 snd (snd x) \<le> timestamp (snd y)"
    by blast+
  from len lP have lC: "length ?C = CACHE_maxSize" by (simp add: CACHE_maxSize_def)
  have "distinct ?P" using dP unfolding distinct_map by (rule conjunct1)
  then have "card (entry_of ` set ?P) = 101"
    using lP by (simp add: card_image [OF entry_of_inj] distinct_card)
  moreover have "card (set ?C) \<le> 100"
    using lC card_length [of ?C] by (simp add: CACHE_maxSize_def)
  ultimately have "\<not> entry_of ` set ?P \<subseteq> set ?C"
    using card_mono [of "set ?C" "entry_of ` set ?P"] by auto
  then obtain x where x: "x \<in> set ?P" "entry_of x \<notin> set ?C"
    by blast
  have "entry_of (hd ?P) \<notin> set ?C"
  proof
    assume "entry_of (hd ?P) \<in> set ?C"
    from old [OF x(1) this x(2)] hdP(2) have "snd (snd x) \<le> window_start"
      by (simp add: entry_of_simps)
    with x(1) have "x = hd ?P"
      using numbered_puts_oldest [of x 100] by simp
    with x(2) \<open>entry_of (hd ?P) \<in> set ?C\<close> show False by simp
  qed
  with dP lP lC hdP(1) show ?thesis by (simp add: CACHE_maxSize_def)
qed

text \<open>
  Claim C6 as stated fails: 101 puts that refresh one key, each after the entry has
  expired, leave one entry in the cache, not \<open>maxSize\<close>.
\<close>

theorem cache_bound_counterexample:
  "CACHE_maxSize < length refresh_puts \<and> length (cache_puts refresh_puts []) \<noteq> CACHE_maxSize"
  by code_simp

section \<open>Properties of the inference client\<close>


lemma fallback_length: "length (fallbackFieldAnalysis flds) = length flds"
  by (simp add: fallbackFieldAnalysis_def)

lemma analyzeFields_denied:
  "\<not> snd (canMakeRequest (now_check env) (RATE_LIMIT s)) \<Longrightarrow>
     analyzeFields env flds ctx s =
       (fallbackFieldAnalysis flds, s\<lparr>RATE_LIMIT := fst (canMakeRequest (now_check env) (RATE_LIMIT s))\<rparr>)"
  by (cases "canMakeRequest (now_check env) (RATE_LIMIT s)") (simp add: analyzeFields_def Let_def)

lemma analyzeFields_granted:
  "snd (canMakeRequest (now_check env) (RATE_LIMIT s)) \<Longrightarrow>
     analyzeFields env flds ctx s =
       (let s1 = s\<lparr>RATE_LIMIT := fst (canMakeRequest (now_check env) (RATE_LIMIT s))\<rparr>;
            cacheKey = generateFieldCacheKey flds ctx
        in case cache_get (fieldAnalysis s) cacheKey of
             None \<Rightarrow> requestAndStore env flds cacheKey s1
           | Some cachedResult \<Rightarrow>
               if \<not> isCacheExpired (now_expiry env) cachedResult
               then (data cachedResult, s1)
               else requestAndStore env flds cacheKey s1)"
  by (cases "canMakeRequest (now_check env) (RATE_LIMIT s)") (simp add: analyzeFields_def Let_def)

text \<open>
  Claim C9, as amended. When the rate limiter denies admission, \<open>analyzeFields\<close>
  returns, without reading or writing the cache and without a remote call, an array of
  the same length in which each field is the input field except for three properties:
  \<open>confidence\<close> is the larger of the existing confidence (0 when undefined) and 0.3,
  \<open>mappingMethod\<close> is the existing method, or \<open>fallback\<close> when none was set, and
  \<open>llmReasoning\<close> is a fixed note.
\<close>

theorem denied_returns_fallback:
  assumes "\<not> snd (canMakeRequest (now_check env) (RATE_LIMIT s))"
  shows "length (fst (analyzeFields env flds ctx s)) = length flds \<and>
         fieldAnalysis (snd (analyzeFields env flds ctx s)) = fieldAnalysis s \<and>
         remoteCalls (snd (analyzeFields env flds ctx s)) = remoteCalls s \<and>
         (\<forall>i < length flds.
            fst (analyzeFields env flds ctx s) ! i =
              (flds ! i)\<lparr>
                 confidence := Some (max (case confidence (flds ! i) of None \<Rightarrow> 0 | Some c \<Rightarrow> c) (3 / 10)),
                 mappingMethod := Some (case mappingMethod (flds ! i) of
                                          None \<Rightarrow> ''fallback''
                                        | Some m \<Rightarrow> if m = [] then ''fallback'' else m),
                 llmReasoning := Some ''LLM analysis unavailable, using heuristic fallback''\<rparr>)"
  by (simp add: analyzeFields_denied [OF assms] fallbackFieldAnalysis_def)

lemma unmapped_key:
  "generateFieldCacheKey [unmapped_field] careers_page = ''fields-dGV4dC1xXzE3LXFfMTctUmVmZXJyYWwg''"
  by code_simp


lemma first_call_run:
  "analyzeFields first_call [unmapped_field] careers_page initial_state = (first_result, warm_state)"
  by code_simp

lemma requestAndStore_result:
  "fst (requestAndStore env flds key s) =
     (case fetched env of
        FetchError \<Rightarrow> fallbackFieldAnalysis flds
      | Response response \<Rightarrow> parseFieldAnalysisResponse response flds)"
  by (simp add: requestAndStore_def Let_def split: fetch_outcome.splits)

lemma requestAndStore_calls:
  "remoteCalls (snd (requestAndStore env flds key s)) = remoteCalls s + 1"
  by (simp add: requestAndStore_def Let_def split: fetch_outcome.splits)

lemma cache_get_delete: "cache_get (cache_delete cache key) key = None"
  by (induction cache) (auto simp: cache_get_def cache_delete_def)

text \<open>
  Claim C7. An entry whose age exceeds the TTL, in particular one created at
  \<open>now - ttl - 1\<close>, counts as expired; on an admitted call with such an entry under the
  key of the batch, \<open>analyzeFields\<close> makes the remote call and returns what it returns
  when the entry is absent.
\<close>

theorem expired_entry_is_miss:
  assumes "snd (canMakeRequest (now_check env) (RATE_LIMIT s))"
    and "cache_get (fieldAnalysis s) (generateFieldCacheKey flds ctx) = Some e"
    and "now_expiry env - timestamp e > CACHE_ttl"
  shows "isCacheExpired now (e\<lparr>timestamp := now - CACHE_ttl - 1\<rparr>) \<and>
         isCacheExpired (now_expiry env) e \<and>
         remoteCalls (snd (analyzeFields env flds ctx s)) = remoteCalls s + 1 \<and>
         fst (analyzeFields env flds ctx s) =
           fst (analyzeFields env flds ctx
                  (s\<lparr>fieldAnalysis := cache_delete (fieldAnalysis s) (generateFieldCacheKey flds ctx)\<rparr>))"
proof -
  have x: "isCacheExpired (now_expiry env) e"
    using assms(3) by (simp add: isCacheExpired_def)
  have a: "analyzeFields env flds ctx s =
      requestAndStore env flds (generateFieldCacheKey flds ctx)
        (s\<lparr>RATE_LIMIT := fst (canMakeRequest (now_check env) (RATE_LIMIT s))\<rparr>)"
    using assms(2) x by (simp add: analyzeFields_granted [OF assms(1)] Let_def)
  let ?s' = "s\<lparr>fieldAnalysis := cache_delete (fieldAnalysis s) (generateFieldCacheKey flds ctx)\<rparr>"
  have g: "snd (canMakeRequest (now_check env) (RATE_LIMIT ?s'))"
    using assms(1) by simp
  have b: "analyzeFields env flds ctx ?s' =
      requestAndStore env flds (generateFieldCacheKey flds ctx)
        (?s'\<lparr>RATE_LIMIT := fst (canMakeRequest (now_check env) (RATE_LIMIT ?s'))\<rparr>)"
    by (simp add: analyzeFields_granted [OF g] Let_def cache_get_delete)
  show ?thesis
    using x by (simp add: a b requestAndStore_result requestAndStore_calls isCacheExpired_def)
qed

text \<open>
  Claim C5, as amended. When a first call has left an entry that holds its result under
  the key of the batch, the entry has not expired and the rate limiter admits the second
  call, the second call with the same batch and context returns the result of the first,
  makes no remote call and leaves the cache as it is.
\<close>

theorem warm_cache_admitted_hit:
  assumes "analyzeFields env1 flds ctx s0 = (r1, s1)"
    and "cache_get (fieldAnalysis s1) (generateFieldCacheKey flds ctx) = Some e"
    and "data e = r1"
    and "\<not> isCacheExpired (now_expiry env2) e"
    and "snd (canMakeRequest (now_check env2) (RATE_LIMIT s1))"
  shows "fst (analyzeFields env2 flds ctx s1) = r1 \<and>
         remoteCalls (snd (analyzeFields env2 flds ctx s1)) = remoteCalls s1 \<and>
         fieldAnalysis (snd (analyzeFields env2 flds ctx s1)) = fieldAnalysis s1"
  using assms(2-4) by (simp add: analyzeFields_granted [OF assms(5)] Let_def)

lemma warm_key:
  "cache_get (fieldAnalysis warm_state) (generateFieldCacheKey [unmapped_field] careers_page) =
     Some \<lparr>data = first_result, timestamp = window_start + 901\<rparr>"
  by (simp add: unmapped_key warm_state_def cache_get_def)

lemma later_granted: "snd (canMakeRequest (now_check later_second_call) (RATE_LIMIT warm_state))"
  by (simp add: canMakeRequest_def later_second_call_def warm_state_def requestsPerDay_def
      requestsPerMinute_def)

lemma early_denied: "\<not> snd (canMakeRequest (now_check early_second_call) (RATE_LIMIT warm_state))"
  by (simp add: canMakeRequest_def early_second_call_def warm_state_def requestsPerDay_def
      requestsPerMinute_def)

lemma stale_granted: "snd (canMakeRequest (now_check stale_call) (RATE_LIMIT warm_state))"
  by (simp add: canMakeRequest_def stale_call_def warm_state_def requestsPerDay_def
      requestsPerMinute_def CACHE_ttl_def)

text \<open>
  Claim C5, at an input: a second call five seconds after the first.
\<close>

theorem warm_cache_admitted_hit_witness:
  "analyzeFields first_call [unmapped_field] careers_page initial_state = (first_result, warm_state) \<and>
   cache_get (fieldAnalysis warm_state) (generateFieldCacheKey [unmapped_field] careers_page) =
     Some \<lparr>data = first_result, timestamp = window_start + 901\<rparr> \<and>
   \<not> isCacheExpired (now_expiry later_second_call) \<lparr>data = first_result, timestamp = window_start + 901\<rparr> \<and>
   snd (canMakeRequest (now_check later_second_call) (RATE_LIMIT warm_state)) \<and>
   fst (analyzeFields later_second_call [unmapped_field] careers_page warm_state) = first_result \<and>
   remoteCalls (snd (analyzeFields later_second_call [unmapped_field] careers_page warm_state)) =
     remoteCalls warm_state"
proof -
  have d: "data \<lparr>data = first_result, timestamp = window_start + 901\<rparr> = first_result" by simp
  have f: "\<not> isCacheExpired (now_expiry later_second_call)
      \<lparr>data = first_result, timestamp = window_start + 901\<rparr>"
    by (simp add: isCacheExpired_def later_second_call_def CACHE_ttl_def)
  from warm_cache_admitted_hit [OF first_call_run warm_key d f later_granted]
    first_call_run warm_key f later_granted
  show ?thesis by blast
qed

text \<open>
  Claim C5 as stated fails: a second call 500 ms after the request of the first is
  denied by the rate limiter, which is asked before the cache, and returns the fallback
  analysis although the entry of the first call is in the cache and has not expired.
\<close>

theorem warm_cache_counterexample:
  "cache_get (fieldAnalysis (snd (analyzeFields first_call [unmapped_field] careers_page initial_state)))
      (generateFieldCacheKey [unmapped_field] careers_page) =
     Some \<lparr>data = fst (analyzeFields first_call [unmapped_field] careers_page initial_state),
           timestamp = now_store first_call\<rparr> \<and>
   \<not> isCacheExpired (now_expiry early_second_call)
       \<lparr>data = fst (analyzeFields first_call [unmapped_field] careers_page initial_state),
        timestamp = now_store first_call\<rparr> \<and>
   fst (analyzeFields early_second_call [unmapped_field] careers_page
          (snd (analyzeFields first_call [unmapped_field] careers_page initial_state))) \<noteq>
     fst (analyzeFields first_call [unmapped_field] careers_page initial_state)"
proof -
  have "fst (analyzeFields early_second_call [unmapped_field] careers_page warm_state) \<noteq> first_result"
    by (simp add: analyzeFields_denied [OF early_denied] fallbackFieldAnalysis_def first_result_def
        unmapped_field_def)
  moreover have "\<not> isCacheExpired (now_expiry early_second_call)
      \<lparr>data = first_result, timestamp = now_store first_call\<rparr>"
    by (simp add: isCacheExpired_def early_second_call_def first_call_def CACHE_ttl_def)
  moreover have "now_store first_call = window_start + 901"
    by (simp add: first_call_def)
  ultimately show ?thesis
    using warm_key by (simp add: first_call_run)
qed

text \<open>
  Claim C7, at an input: a call one millisecond after the entry of the first call has
  expired.
\<close>

theorem expired_entry_is_miss_witness:
  "snd (canMakeRequest (now_check stale_call) (RATE_LIMIT warm_state)) \<and>
   cache_get (fieldAnalysis warm_state) (generateFieldCacheKey [unmapped_field] careers_page) =
     Some \<lparr>data = first_result, timestamp = window_start + 901\<rparr> \<and>
   timestamp \<lparr>data = first_result, timestamp = window_start + 901\<rparr> = now_expiry stale_call - CACHE_ttl - 1 \<and>
   remoteCalls (snd (analyzeFields stale_call [unmapped_field] careers_page warm_state)) =
     remoteCalls warm_state + 1 \<and>
   fst (analyzeFields stale_call [unmapped_field] careers_page warm_state) = [unmapped_field]"
proof -
  let ?e = "\<lparr>data = first_result, timestamp = window_start + 901\<rparr>"
  have t: "timestamp ?e = now_expiry stale_call - CACHE_ttl - 1"
    by (simp add: stale_call_def)
  then have x: "now_expiry stale_call - timestamp ?e > CACHE_ttl" by simp
  note inst = expired_entry_is_miss [OF stale_granted warm_key x]
  have "fst (analyzeFields stale_call [unmapped_field] careers_page
               (warm_state\<lparr>fieldAnalysis := cache_delete (fieldAnalysis warm_state)
                   (generateFieldCacheKey [unmapped_field] careers_page)\<rparr>)) = [unmapped_field]"
  proof -
    let ?s' = "warm_state\<lparr>fieldAnalysis := cache_delete (fieldAnalysis warm_state)
                   (generateFieldCacheKey [unmapped_field] careers_page)\<rparr>"
    have g: "snd (canMakeRequest (now_check stale_call) (RATE_LIMIT ?s'))"
      using stale_granted by simp
    have f: "fetched stale_call = Response None" by (simp add: stale_call_def)
    show ?thesis
      by (simp add: analyzeFields_granted [OF g] Let_def cache_get_delete
          requestAndStore_result f parseFieldAnalysisResponse_def)
  qed
  with inst stale_granted warm_key t show ?thesis by simp
qed

text \<open>
  Claim C9, at an input: a second call 500 ms after a committed request.
\<close>

theorem denied_returns_fallback_witness:
  "\<not> snd (canMakeRequest (now_check early_second_call) (RATE_LIMIT warm_state)) \<and>
   length (fst (analyzeFields early_second_call [unmapped_field] careers_page warm_state)) = 1 \<and>
   remoteCalls (snd (analyzeFields early_second_call [unmapped_field] careers_page warm_state)) = 1 \<and>
   fst (analyzeFields early_second_call [unmapped_field] careers_page warm_state) ! 0 =
     unmapped_field\<lparr>confidence := Some (3 / 10), mappingMethod := Some ''heuristic'',
       llmReasoning := Some ''LLM analysis unavailable, using heuristic fallback''\<rparr>"
  using denied_returns_fallback [OF early_denied, of "[unmapped_field]" careers_page] early_denied
  by (simp add: unmapped_field_def warm_state_def)

text \<open>
  Claim C9 as stated fails: a field that \<open>mapFields\<close> left with the method
  \<open>heuristic\<close> keeps it, and its \<open>llmReasoning\<close> is overwritten.
\<close>

theorem denied_method_counterexample:
  "\<not> snd (canMakeRequest (now_check early_second_call) (RATE_LIMIT warm_state)) \<and>
   mappingMethod (fst (analyzeFields early_second_call [unmapped_field] careers_page warm_state) ! 0) =
     Some ''heuristic'' \<and>
   mappingMethod (fst (analyzeFields early_second_call [unmapped_field] careers_page warm_state) ! 0) \<noteq>
     Some ''fallback'' \<and>
   llmReasoning (fst (analyzeFields early_second_call [unmapped_field] careers_page warm_state) ! 0) \<noteq>
     llmReasoning unmapped_field"
  using early_denied
  by (simp add: analyzeFields_denied fallbackFieldAnalysis_def unmapped_field_def)

end
